theory Spec2Isabelle
  imports Main "HOL-Library.Multiset"
begin

section \<open>Cards\<close>

text \<open>
  The file \<^verbatim>\<open>Card.ts\<close> (the class \<^verbatim>\<open>Card\<close> and the enumerations \<^verbatim>\<open>CardColor\<close>
  and \<^verbatim>\<open>CardType\<close>) is not among the sources. The deck and the room use the enumerations
  numerically: \<^verbatim>\<open>colors = [0, 1, 2, 3]\<close>, \<^verbatim>\<open>Math.floor(Math.random() * 4)\<close> as a colour,
  \<^verbatim>\<open>color >= CardColor.Red && color <= CardColor.Blue\<close>, and \<^verbatim>\<open>for\<close> loops that run
  from \<^verbatim>\<open>CardType.Plus2\<close> to \<^verbatim>\<open>CardType.Skip\<close> and from \<^verbatim>\<open>CardType.Wildcard\<close> to
  \<^verbatim>\<open>CardType.Plus4\<close>.
\<close>

text \<open>Modelled from the spec: the enumeration \<^verbatim>\<open>CardColor\<close> of the missing \<^verbatim>\<open>Card.ts\<close>,
  \<^verbatim>\<open>enum{Red,Yellow,Green,Blue,None}\<close> in this order.\<close>

datatype CardColor = Red | Yellow | Green | Blue | None_color

fun CardColor_val :: "CardColor \<Rightarrow> nat" where
  "CardColor_val Red = 0"
| "CardColor_val Yellow = 1"
| "CardColor_val Green = 2"
| "CardColor_val Blue = 3"
| "CardColor_val None_color = 4"

text \<open>Modelled from the spec: the enumeration \<^verbatim>\<open>CardType\<close> of the missing \<^verbatim>\<open>Card.ts\<close>,
  \<^verbatim>\<open>enum{None,Plus2,Reverse,Skip,Wildcard,Plus4}\<close> in this order, numbered from 0 as a
  TypeScript numeric enumeration is.\<close>

datatype CardType = None_type | Plus2 | Reverse | Skip | Wildcard | Plus4

fun CardType_val :: "CardType \<Rightarrow> nat" where
  "CardType_val None_type = 0"
| "CardType_val Plus2 = 1"
| "CardType_val Reverse = 2"
| "CardType_val Skip = 3"
| "CardType_val Wildcard = 4"
| "CardType_val Plus4 = 5"

definition CardType_all :: "CardType list" where
  "CardType_all = [None_type, Plus2, Reverse, Skip, Wildcard, Plus4]"

text \<open>The values a loop \<^verbatim>\<open>for (let type = lo; type <= hi; type++)\<close> runs through.\<close>

definition CardType_range :: "CardType \<Rightarrow> CardType \<Rightarrow> CardType list" where
  "CardType_range lo hi =
     filter (\<lambda>t. CardType_val lo \<le> CardType_val t \<and> CardType_val t \<le> CardType_val hi) CardType_all"

type_synonym ident = nat

text \<open>Modelled from the spec: the class \<^verbatim>\<open>Card\<close> of the missing \<^verbatim>\<open>Card.ts\<close>:
  \<^verbatim>\<open>{ id: unique, number: 0-9, color, type, playable: bool }\<close>. Identifiers are opaque
  and only ever compared for equality.\<close>

record Card =
  card_id :: ident
  number :: nat
  color :: CardColor
  ctype :: CardType
  playable :: bool

text \<open>Modelled from the spec: the constructor \<^verbatim>\<open>new Card(number, color, type)\<close> of the missing
  \<^verbatim>\<open>Card.ts\<close>. The identifier it draws is an argument here; a fresh card is not playable.\<close>

definition new_Card :: "ident \<Rightarrow> nat \<Rightarrow> CardColor \<Rightarrow> CardType \<Rightarrow> Card" where
  "new_Card i n c t = \<lparr>card_id = i, number = n, color = c, ctype = t, playable = False\<rparr>"

section \<open>Deck\<close>

text \<open>
  \<^verbatim>\<open>Deck\<close> has the single field \<^verbatim>\<open>cards\<close>, so a deck is its list of cards. The supply
  \<open>fresh\<close> gives the identifier of the k-th card constructed, counting from 0;
  \<^verbatim>\<open>this.cards.push(new Card(..))\<close> on a deck of k cards therefore builds the card with
  identifier \<open>fresh k\<close>.
\<close>

definition colors :: "CardColor list" where
  "colors = [Red, Yellow, Green, Blue]"

definition push_new :: "(nat \<Rightarrow> ident) \<Rightarrow> nat \<Rightarrow> CardColor \<Rightarrow> CardType \<Rightarrow> Card list \<Rightarrow> Card list" where
  "push_new fresh n c t cards = cards @ [new_Card (fresh (length cards)) n c t]"

text \<open>The body of \<^verbatim>\<open>for (let number = 1; number <= 9; number++)\<close>: two pushes.\<close>

definition push_numbers :: "(nat \<Rightarrow> ident) \<Rightarrow> CardColor \<Rightarrow> Card list \<Rightarrow> Card list" where
  "push_numbers fresh c cards =
     fold (\<lambda>n cs. push_new fresh n c None_type (push_new fresh n c None_type cs)) [1 ..< 10] cards"

text \<open>The body of a loop over card types: two pushes of a card with number 0.\<close>

definition push_types :: "(nat \<Rightarrow> ident) \<Rightarrow> CardColor \<Rightarrow> CardType \<Rightarrow> CardType \<Rightarrow> Card list \<Rightarrow> Card list" where
  "push_types fresh c lo hi cards =
     fold (\<lambda>t cs. push_new fresh 0 c t (push_new fresh 0 c t cs)) (CardType_range lo hi) cards"

definition generateDeck :: "(nat \<Rightarrow> ident) \<Rightarrow> Card list" where
  "generateDeck fresh =
     push_types fresh None_color Wildcard Plus4
       (fold (\<lambda>c cs. push_types fresh c Plus2 Skip
                        (push_numbers fresh c
                           (push_new fresh 0 c None_type cs)))
             colors [])"

text \<open>
  \<^verbatim>\<open>Math.random\<close> is a tape of outcomes \<open>rnd\<close> read at a position;
  \<^verbatim>\<open>Math.floor(Math.random() * k)\<close> is \<open>rnd pos mod k\<close>, which ranges over \<open>0 ..< k\<close>.
  The loop of \<^verbatim>\<open>shuffleDeck\<close> counts \<open>i\<close> down from the length to 0.
\<close>

fun shuffle_loop :: "(nat \<Rightarrow> nat) \<Rightarrow> nat \<Rightarrow> nat \<Rightarrow> 'a list \<Rightarrow> 'a list" where
  "shuffle_loop rnd pos 0 cards = cards"
| "shuffle_loop rnd pos (Suc i) cards =
     (let randIndex = rnd pos mod Suc i
      in shuffle_loop rnd (Suc pos) i (cards[i := cards ! randIndex, randIndex := cards ! i]))"

definition shuffleDeck :: "(nat \<Rightarrow> nat) \<Rightarrow> nat \<Rightarrow> 'a list \<Rightarrow> 'a list" where
  "shuffleDeck rnd pos cards = shuffle_loop rnd pos (length cards) cards"

text \<open>
  \<^verbatim>\<open>pickCard(i)\<close> is \<^verbatim>\<open>this.cards.splice(i, 1)\<close>: it returns the removed elements (none
  when \<open>i\<close> is past the end) and leaves the rest in the deck.
\<close>

definition pickCard :: "nat \<Rightarrow> 'a list \<Rightarrow> 'a list \<times> 'a list" where
  "pickCard i cards = (take 1 (drop i cards), take i cards @ drop (Suc i) cards)"

section \<open>Players\<close>

type_synonym ref = nat

text \<open>Modelled from the spec: the class \<^verbatim>\<open>Player\<close> of the missing \<^verbatim>\<open>Player.ts\<close>, with the
  fields of the data model (\<^verbatim>\<open>id\<close>, \<^verbatim>\<open>username\<close>, the hand, the bot flag, \<^verbatim>\<open>canDraw\<close>,
  \<^verbatim>\<open>canPlay\<close>, \<^verbatim>\<open>drawing\<close>, \<^verbatim>\<open>hasCalledUno\<close>, \<^verbatim>\<open>mustStack\<close>, the index of the last
  drawn card) under the names the room and the gateway use (\<^verbatim>\<open>cards\<close>, \<^verbatim>\<open>bot\<close>,
  \<^verbatim>\<open>lastDrawnCard\<close>, \<^verbatim>\<open>inRoom\<close>, \<^verbatim>\<open>roomId\<close>, \<^verbatim>\<open>socket\<close>). The socket is the identifier
  of the connection, absent (\<^verbatim>\<open>null\<close>) for a bot.\<close>

record Player =
  player_id :: ident
  username :: string
  cards :: "Card list"
  bot_flag :: bool
  inRoom :: bool
  roomId :: string
  socket :: "ident option"
  canDraw :: bool
  canPlay :: bool
  drawing :: bool
  hasCalledUno :: bool
  mustStack :: bool
  lastDrawnCard :: int

text \<open>Modelled from the spec: the constructor \<^verbatim>\<open>new Player(socket, bot)\<close> of the missing
  \<^verbatim>\<open>Player.ts\<close>: an empty hand and every turn-local flag off. The identifier is an
  argument.\<close>

definition new_Player :: "ident \<Rightarrow> ident option \<Rightarrow> bool \<Rightarrow> Player" where
  "new_Player i s b =
     \<lparr>player_id = i, username = [], cards = [], bot_flag = b, inRoom = False, roomId = [],
      socket = s, canDraw = False, canPlay = False, drawing = False, hasCalledUno = False,
      mustStack = False, lastDrawnCard = - 1\<rparr>"

text \<open>Modelled from the spec: \<^verbatim>\<open>Player.findPlayableCards(topCard)\<close> of the missing
  \<^verbatim>\<open>Player.ts\<close>: a hand card is playable iff it matches the top card by colour, or by
  number (for numbered cards), or by type (for action cards), or is a Wildcard or Plus4;
  a player who must stack may only play a card of the pending penalty type.\<close>

definition card_matches :: "Card \<Rightarrow> Card \<Rightarrow> bool" where
  "card_matches tc c \<longleftrightarrow>
     color c = color tc
     \<or> (ctype c = None_type \<and> ctype tc = None_type \<and> number c = number tc)
     \<or> (ctype c \<noteq> None_type \<and> ctype c = ctype tc)
     \<or> ctype c = Wildcard \<or> ctype c = Plus4"

definition findPlayableCards :: "Card \<Rightarrow> Player \<Rightarrow> Player" where
  "findPlayableCards tc pl =
     pl\<lparr>cards := map (\<lambda>c. c\<lparr>playable :=
               (if mustStack pl then (ctype tc = Plus2 \<or> ctype tc = Plus4) \<and> ctype c = ctype tc
                else card_matches tc c)\<rparr>) (cards pl)\<rparr>"

text \<open>Modelled from the spec: \<^verbatim>\<open>Player.clearPlayableCards()\<close> of the missing \<^verbatim>\<open>Player.ts\<close>:
  strips the playable flag from every hand card.\<close>

definition clearPlayableCards :: "Player \<Rightarrow> Player" where
  "clearPlayableCards pl = pl\<lparr>cards := map (\<lambda>c. c\<lparr>playable := False\<rparr>) (cards pl)\<rparr>"

text \<open>Modelled from the spec: \<^verbatim>\<open>Player.sortCards()\<close> of the missing \<^verbatim>\<open>Player.ts\<close>: a stable
  ordering by colour, then number, action and wild cards after the numbered cards of
  their colour.\<close>

definition sort_rank :: "Card \<Rightarrow> nat" where
  "sort_rank c =
     100 * CardColor_val (color c)
       + (if ctype c = None_type then number c else 10 + CardType_val (ctype c))"

definition sortCards :: "Player \<Rightarrow> Player" where
  "sortCards pl = pl\<lparr>cards := sort_key sort_rank (cards pl)\<rparr>"

section \<open>The state pushed to a player\<close>

text \<open>
  The object literal \<^verbatim>\<open>state\<close> of \<^verbatim>\<open>broadcastState\<close>. \<^verbatim>\<open>you\<close> spreads the viewer's own
  player object (its hand included) with the socket blanked; \<^verbatim>\<open>right\<close>, \<^verbatim>\<open>top\<close> and
  \<^verbatim>\<open>left\<close> are the six-field object literals or \<^verbatim>\<open>undefined\<close>.
\<close>

record Opponent =
  o_username :: string
  o_count :: nat
  o_id :: ident
  o_isBot :: bool
  o_calledUno :: bool
  o_skip :: bool

record You =
  y_player :: Player
  y_count :: nat
  y_calledUno :: bool
  y_skip :: bool

record RoomState =
  v_id :: string
  v_isHost :: bool
  v_host :: ident
  v_turn :: ident
  v_pile :: "Card list"
  v_started :: bool
  v_directionReversed :: bool
  v_stack :: int
  v_playerCount :: nat
  v_maxPlayers :: int
  v_wildcard :: "Card option"
  v_you :: You
  v_right :: "Opponent option"
  v_top :: "Opponent option"
  v_left :: "Opponent option"
  v_winner :: "(string \<times> ident) option"

datatype message = State_msg RoomState | Kicked | Can_keep_card

section \<open>The world and the room\<close>

text \<open>
  Player objects are shared: the seating list, \<^verbatim>\<open>turn\<close>, \<^verbatim>\<open>host\<close>, \<^verbatim>\<open>winner\<close> and the
  gateway's registry all hold references to them, and the room mutates them through
  whichever reference is at hand. The world is therefore an explicit store from
  references to player objects, with the next free reference for \<^verbatim>\<open>new Player\<close>. It
  also holds the tape of \<^verbatim>\<open>Math.random\<close> (and \<^verbatim>\<open>uuid\<close>) outcomes with the position
  read next, and the messages emitted so far, each with the socket it went to.

  Card objects are held by one container at a time (the deck, the pile or one hand), so
  hands, deck and pile are lists of card values.
\<close>

record World =
  heap :: "ref \<Rightarrow> Player"
  next_ref :: ref
  rnd :: "nat \<Rightarrow> nat"
  rnd_pos :: nat
  outbox :: "(ident \<times> message) list"

record Settings =
  stacking :: bool
  forcePlay :: bool
  bluffing :: bool
  drawToPlay :: bool
  public_room :: bool
  maxPlayers :: int

text \<open>
  The fields of the class \<^verbatim>\<open>Room\<close>, on top of the world its methods run in. \<^verbatim>\<open>turn\<close> is
  optional because \<^verbatim>\<open>nextTurn\<close> may store an \<^verbatim>\<open>undefined\<close> result of \<^verbatim>\<open>getNextPlayer\<close>
  there. The interval handle of the inactivity timer is not modelled.
\<close>

record Room = World +
  room_id :: string
  started :: bool
  host :: ref
  players :: "ref list"
  deck :: "Card list"
  pile :: "Card list"
  turn :: "ref option"
  directionReversed :: bool
  stack :: int
  winner :: "ref option"
  isRoomEmpty :: bool
  inactivityTimer :: int
  wildcard :: "Card option"
  settings :: Settings

datatype error = TypeError

section \<open>JavaScript arrays\<close>

text \<open>\<^verbatim>\<open>Array.prototype.findIndex\<close>: the first index whose element satisfies the predicate,
  or -1.\<close>

fun findIndex :: "('a \<Rightarrow> bool) \<Rightarrow> 'a list \<Rightarrow> int" where
  "findIndex P [] = - 1"
| "findIndex P (x # xs) =
     (if P x then 0 else (let i = findIndex P xs in if i = - 1 then - 1 else i + 1))"

text \<open>Reading \<^verbatim>\<open>xs[i]\<close>: \<^verbatim>\<open>undefined\<close> outside \<open>0 ..< length xs\<close>.\<close>

definition at_index :: "'a list \<Rightarrow> int \<Rightarrow> 'a option" where
  "at_index xs i = (if 0 \<le> i \<and> i < int (length xs) then Some (xs ! nat i) else None)"

section \<open>Room: helpers\<close>

definition upd_player :: "ref \<Rightarrow> (Player \<Rightarrow> Player) \<Rightarrow> 'a World_scheme \<Rightarrow> 'a World_scheme" where
  "upd_player p f w = w\<lparr>heap := (heap w)(p := f (heap w p))\<rparr>"

text \<open>\<^verbatim>\<open>player.socket?.emit(..)\<close>\<close>

definition emit :: "ref \<Rightarrow> message \<Rightarrow> 'a World_scheme \<Rightarrow> 'a World_scheme" where
  "emit p m w =
     (case socket (heap w p) of
        None \<Rightarrow> w
      | Some s \<Rightarrow> w\<lparr>outbox := outbox w @ [(s, m)]\<rparr>)"

definition topCard :: "Room \<Rightarrow> Card option" where
  "topCard r = at_index (pile r) (int (length (pile r)) - 1)"

text \<open>
  \<^verbatim>\<open>getNextPlayer(offset)\<close>. Reading \<^verbatim>\<open>this.turn.id\<close> throws when \<^verbatim>\<open>turn\<close> is undefined;
  it is read by the callback of \<^verbatim>\<open>findIndex\<close>, which runs once per seat, so not at all in
  a room without seats. The result is \<^verbatim>\<open>undefined\<close> when the computed index is not a
  seat.
\<close>

definition getNextPlayer :: "Room \<Rightarrow> int \<Rightarrow> error + ref option" where
  "getNextPlayer r offset =
     (case turn r of
        None \<Rightarrow> if players r = [] then Inr None else Inl TypeError
      | Some t \<Rightarrow>
          (let i = findIndex (\<lambda>p. player_id (heap r p) = player_id (heap r t)) (players r);
               n = int (length (players r));
               i' = (if directionReversed r
                     then (let j = i - (1 + offset) in if j < 0 then n + j else j)
                     else (let j = i + (1 + offset) in if j > n - 1 then j - n else j))
           in Inr (at_index (players r) i')))"

definition checkForWinner :: "Room \<Rightarrow> Room" where
  "checkForWinner r =
     fold (\<lambda>p r'. if length (cards (heap r' p)) = 0 then r'\<lparr>winner := Some p\<rparr> else r')
          (players r) r"

definition clearStack :: "Room \<Rightarrow> Room" where
  "clearStack r =
     fold (\<lambda>p. upd_player p (\<lambda>pl. pl\<lparr>mustStack := False\<rparr>)) (players r) (r\<lparr>stack := 0\<rparr>)"

section \<open>Room: the state broadcast\<close>

definition getPlayerPosFromOffset :: "Room \<Rightarrow> ref \<Rightarrow> int \<Rightarrow> ref option" where
  "getPlayerPosFromOffset r player offset =
     (let playerIndex = findIndex (\<lambda>p. player_id (heap r p) = player_id (heap r player)) (players r);
          n = int (length (players r));
          newIndex = playerIndex + offset;
          newIndex' = (if newIndex > n - 1 then newIndex - n else newIndex)
      in at_index (players r) newIndex')"

definition opponent_view :: "Room \<Rightarrow> ident \<Rightarrow> ref \<Rightarrow> Opponent" where
  "opponent_view r turn_id q =
     \<lparr>o_username = username (heap r q),
      o_count = length (cards (heap r q)),
      o_id = player_id (heap r q),
      o_isBot = bot_flag (heap r q),
      o_calledUno = hasCalledUno (heap r q),
      o_skip = (\<not> canPlay (heap r q) \<and> turn_id = player_id (heap r q))\<rparr>"

text \<open>The state computed for one viewer; \<open>turn_id\<close> is \<^verbatim>\<open>this.turn.id\<close>. The \<^verbatim>\<open>switch\<close> on the
  number of players falls through from 4 to 3 to 2.\<close>

definition state_for :: "Room \<Rightarrow> ident \<Rightarrow> ref \<Rightarrow> RoomState" where
  "state_for r turn_id player =
     (let n = length (players r);
          left = (if n = 4 then getPlayerPosFromOffset r player 3 else None);
          top' = (if n = 4 \<or> n = 3 then getPlayerPosFromOffset r player 2 else None);
          right = (if n = 4 \<or> n = 3 \<or> n = 2 then getPlayerPosFromOffset r player 1 else None)
      in \<lparr>v_id = room_id r,
          v_isHost = (player_id (heap r (host r)) = player_id (heap r player)),
          v_host = player_id (heap r (host r)),
          v_turn = turn_id,
          v_pile = pile r,
          v_started = started r,
          v_directionReversed = directionReversed r,
          v_stack = stack r,
          v_playerCount = n,
          v_maxPlayers = maxPlayers (settings r),
          v_wildcard = wildcard r,
          v_you = \<lparr>y_player = (heap r player)\<lparr>socket := None\<rparr>,
                   y_count = length (cards (heap r player)),
                   y_calledUno = hasCalledUno (heap r player),
                   y_skip = (\<not> canPlay (heap r player) \<and> turn_id = player_id (heap r player))\<rparr>,
          v_right = map_option (opponent_view r turn_id) right,
          v_top = map_option (opponent_view r turn_id) top',
          v_left = map_option (opponent_view r turn_id) left,
          v_winner = map_option (\<lambda>w. (username (heap r w), player_id (heap r w))) (winner r)\<rparr>)"

text \<open>
  \<^verbatim>\<open>broadcastState()\<close>: every seated player that is not a bot is sent its own state. The
  states are computed from the room as it is when the broadcast starts (emitting changes
  nothing they read). Building a state reads \<^verbatim>\<open>this.turn.id\<close>, which throws when \<^verbatim>\<open>turn\<close>
  is undefined and there is a viewer.
\<close>

definition broadcastState :: "Room \<Rightarrow> error + Room" where
  "broadcastState r =
     (let viewers = filter (\<lambda>p. \<not> bot_flag (heap r p)) (players r)
      in if viewers = [] then Inr r
         else (case turn r of
                 None \<Rightarrow> Inl TypeError
               | Some t \<Rightarrow>
                   Inr (fold (\<lambda>p. emit p (State_msg (state_for r (player_id (heap r t)) p)))
                             viewers r)))"

section \<open>Room: dealing cards\<close>

text \<open>
  \<^verbatim>\<open>refillDeckFromPile()\<close>: \<^verbatim>\<open>this.pile.splice(0, this.pile.length - 1)\<close> removes all but the
  last card of the pile (nothing from an empty pile, the delete count being clamped at 0);
  the shuffle reads one tape entry for every card of the deck.
\<close>

definition refillDeckFromPile :: "Room \<Rightarrow> Room" where
  "refillDeckFromPile r =
     (let cs = take (length (pile r) - 1) (pile r);
          pile' = drop (length (pile r) - 1) (pile r);
          deck1 = deck r @ cs;
          deck2 = map (\<lambda>c. if ctype c = Wildcard \<or> ctype c = Plus4
                            then c\<lparr>color := None_color\<rparr> else c) deck1
      in r\<lparr>pile := pile',
           deck := shuffleDeck (rnd r) (rnd_pos r) deck2,
           rnd_pos := rnd_pos r + length deck2\<rparr>)"

text \<open>
  \<^verbatim>\<open>giveCard(player)\<close>. The room calls \<^verbatim>\<open>this.deck.pickCard()\<close> without an index and uses
  the result as the card dealt: the splice then starts at index 0, and the card is the
  one element removed. The method neither throws nor returns early on an empty deck.
  From a deck that is empty even after the refill nothing is removed: there is no card to
  deal, the method pushes that result onto the hand all the same and returns it. A hand
  of the model lists the cards a player holds, so it grows by what \<^verbatim>\<open>pickCard\<close> removed
  from the deck, one card or none, and the result is the card dealt, \<open>None\<close> where the
  source returns \<^verbatim>\<open>undefined\<close>; the hand array of the source then has one entry more than
  the hand of the model, an entry that is no card. The top card of an empty pile is
  \<^verbatim>\<open>undefined\<close>, on which computing the playable cards throws.
\<close>

definition giveCard :: "Room \<Rightarrow> ref \<Rightarrow> error + (Card option \<times> Room)" where
  "giveCard r player =
     (let r1 = (if length (deck r) = 0 then refillDeckFromPile r else r)
      in case pickCard 0 (deck r1) of
           (picked, rest) \<Rightarrow>
             (let dealt = at_index picked 0;
                  r2 = upd_player player (\<lambda>pl. pl\<lparr>cards := cards pl @ picked\<rparr>) (r1\<lparr>deck := rest\<rparr>)
              in case turn r2 of
                   None \<Rightarrow> Inl TypeError
                 | Some t \<Rightarrow>
                     if player_id (heap r2 t) = player_id (heap r2 player) \<and> started r2
                     then (case topCard r2 of
                             None \<Rightarrow> Inl TypeError
                           | Some tc \<Rightarrow> Inr (dealt, upd_player player (findPlayableCards tc) r2))
                     else Inr (dealt, r2)))"

section \<open>Room: drawing\<close>

text \<open>
  The asynchronous methods are modelled as running to completion: the pacing delays
  (\<^verbatim>\<open>await sleep(..)\<close>) are points where nothing else is taken to happen to the room, and
  the not awaited call of \<^verbatim>\<open>nextTurn\<close> at the end of \<^verbatim>\<open>playCard\<close> is run in place.

  \<^verbatim>\<open>drawn\<close> holds the very card objects that sit in the player's hand, so
  \<^verbatim>\<open>drawn.findIndex((c) => c.playable)\<close> reads the flags the hand cards have now. The
  model keeps the identifiers of the drawn cards and looks the flags up in the hand, as
  the source itself does when it searches the hand for the identifier of the last drawn
  card.
\<close>

definition drawn_playable :: "Room \<Rightarrow> ref \<Rightarrow> ident list \<Rightarrow> bool" where
  "drawn_playable r player drawn =
     list_ex (\<lambda>c. List.member drawn (card_id c) \<and> playable c) (cards (heap r player))"

datatype loop_exit = Returned | Fell_through

text \<open>
  The \<^verbatim>\<open>while\<close> loop of \<^verbatim>\<open>drawCards\<close>, from its test. \<open>nextTurn'\<close> stands for the call
  \<^verbatim>\<open>this.nextTurn()\<close>, after which the method returns (\<open>Returned\<close>); leaving the loop by
  its test or by \<^verbatim>\<open>break\<close> is \<open>Fell_through\<close>. When \<^verbatim>\<open>giveCard\<close> had no card to deal, the
  last element of \<^verbatim>\<open>drawn\<close> is \<^verbatim>\<open>undefined\<close>, and reading its \<^verbatim>\<open>id\<close> for the search of
  the hand throws. Every round thus takes a card out of deck and pile or throws, which
  bounds the number of rounds.
\<close>

function drawCards_loop ::
  "(Room \<Rightarrow> error + Room) \<Rightarrow> ref \<Rightarrow> int \<Rightarrow> ident list \<Rightarrow> int \<Rightarrow> Room \<Rightarrow> error + (loop_exit \<times> Room)"
where
  "drawCards_loop nextTurn' player amount drawn i r =
     (if (amount = - 1 \<and> \<not> drawn_playable r player drawn)
         \<or> (amount \<noteq> - 1 \<and> amount \<noteq> i \<and> \<not> isRoomEmpty r)
      then (case giveCard r player of
              Inl e \<Rightarrow> Inl e
            | Inr (None, r1) \<Rightarrow> Inl TypeError
            | Inr (Some dealt, r1) \<Rightarrow>
                (let drawn' = drawn @ [card_id dealt];
                     r2 = upd_player player sortCards r1;
                     r3 = upd_player player
                            (\<lambda>pl. pl\<lparr>lastDrawnCard :=
                                       findIndex (\<lambda>c. card_id c = card_id dealt) (cards pl)\<rparr>) r2
                 in case broadcastState r3 of
                      Inl e \<Rightarrow> Inl e
                    | Inr r4 \<Rightarrow>
                        if amount = - 1 \<and> \<not> drawToPlay (settings r4)
                        then (if \<not> drawn_playable r4 player drawn'
                              then (case nextTurn' (upd_player player (\<lambda>pl. pl\<lparr>drawing := False\<rparr>) r4) of
                                      Inl e \<Rightarrow> Inl e
                                    | Inr r5 \<Rightarrow> Inr (Returned, r5))
                              else Inr (Fell_through, r4))
                        else drawCards_loop nextTurn' player amount drawn' (i + 1) r4))
      else Inr (Fell_through, r))"
  by pat_completeness auto
termination
proof (relation "measure (\<lambda>(nextTurn', player, amount, drawn, i, r). length (deck r) + length (pile r))")
  show "wf (measure (\<lambda>(nextTurn', player, amount, drawn, i, r). length (deck r) + length (pile r)))"
    by simp
next
  fix nextTurn' :: "Room \<Rightarrow> error + Room" and player :: ref and amount i :: int
    and drawn :: "ident list" and r r1 r4 :: Room and x :: "Card option \<times> Room"
    and given :: "Card option" and dealt :: Card
    and drawn' :: "ident list" and r2 r3 :: Room
  assume give: "giveCard r player = Inr x" "(given, r1) = x" "given = Some dealt"
    and r2: "r2 = upd_player player sortCards r1"
    and r3: "r3 = upd_player player
               (\<lambda>pl. pl\<lparr>lastDrawnCard := findIndex (\<lambda>c. card_id c = card_id dealt) (cards pl)\<rparr>) r2"
    and bc: "broadcastState r3 = Inr r4"
  have emit_frame: "deck (fold (\<lambda>p. emit p (m p)) vs w) = deck w \<and> pile (fold (\<lambda>p. emit p (m p)) vs w) = pile w"
    for m :: "ref \<Rightarrow> message" and vs and w :: Room
    by (induction vs arbitrary: w) (simp_all add: emit_def split: option.splits)
  have "length (deck r4) + length (pile r4) = length (deck r3) + length (pile r3)"
    using bc emit_frame
    by (auto simp: broadcastState_def Let_def split: if_splits option.splits)
  moreover have "length (deck r3) + length (pile r3) = length (deck r1) + length (pile r1)"
    by (simp add: r2 r3 upd_player_def)
  moreover have "length (deck r1) + length (pile r1) < length (deck r) + length (pile r)"
  proof -
    have shuffled: "length (shuffle_loop f pos k cs) = length cs"
      for f pos k and cs :: "Card list"
      by (induction k arbitrary: pos cs) (simp_all add: Let_def)
    define r0 where "r0 = (if length (deck r) = 0 then refillDeckFromPile r else r)"
    have total: "length (deck r0) + length (pile r0) = length (deck r) + length (pile r)"
      by (simp add: r0_def refillDeckFromPile_def shuffleDeck_def shuffled Let_def)
    from give have "deck r0 \<noteq> [] \<and> deck r1 = tl (deck r0) \<and> pile r1 = pile r0"
      unfolding giveCard_def r0_def [symmetric] Let_def
      by (cases "deck r0")
         (auto simp: pickCard_def at_index_def upd_player_def split: if_splits option.splits)
    then have "length (deck r1) + length (pile r1) < length (deck r0) + length (pile r0)"
      by (cases "deck r0") simp_all
    with total show ?thesis by simp
  qed
  ultimately show "((nextTurn', player, amount, drawn', i + 1, r4),
                    (nextTurn', player, amount, drawn, i, r))
         \<in> measure (\<lambda>(nextTurn', player, amount, drawn, i, r). length (deck r) + length (pile r))"
    by simp
qed

text \<open>
  \<^verbatim>\<open>drawCards(player, amount)\<close> around its loop; \<open>nextTurn'\<close> is again the call
  \<^verbatim>\<open>this.nextTurn()\<close> made inside the loop.
\<close>

definition drawCards_with :: "(Room \<Rightarrow> error + Room) \<Rightarrow> Room \<Rightarrow> ref \<Rightarrow> int \<Rightarrow> error + Room" where
  "drawCards_with nextTurn' r player amount =
     (if drawing (heap r player) \<or> (\<not> canDraw (heap r player) \<and> amount = - 1) then Inr r
      else
        (let r1 = (if amount = - 1 then upd_player player (\<lambda>pl. pl\<lparr>canDraw := False\<rparr>) r else r);
             r2 = upd_player player (\<lambda>pl. pl\<lparr>drawing := True\<rparr>) r1
         in case drawCards_loop nextTurn' player amount [] 0 r2 of
              Inl e \<Rightarrow> Inl e
            | Inr (Returned, r3) \<Rightarrow> Inr r3
            | Inr (Fell_through, r3) \<Rightarrow>
                (let r4 = upd_player player
                            (\<lambda>pl. pl\<lparr>cards := map (\<lambda>c. c\<lparr>playable := False\<rparr>) (cards pl)\<rparr>) r3;
                     r5 = upd_player player
                            (\<lambda>pl. case at_index (cards pl) (lastDrawnCard pl) of
                                     None \<Rightarrow> pl
                                   | Some c \<Rightarrow>
                                       pl\<lparr>cards := (cards pl)[nat (lastDrawnCard pl) :=
                                                                  c\<lparr>playable := True\<rparr>]\<rparr>) r4;
                     r6 = (if amount = - 1 \<and> \<not> forcePlay (settings r5)
                           then emit player Can_keep_card r5 else r5);
                     r7 = upd_player player (\<lambda>pl. pl\<lparr>drawing := False\<rparr>) r6
                 in broadcastState r7)))"

section \<open>Room: advancing the turn\<close>

text \<open>
  \<^verbatim>\<open>nextTurn(skip, draw)\<close>, with \<open>drawCards'\<close> for its call of \<^verbatim>\<open>this.drawCards\<close> and
  \<open>botPlay\<close> for \<^verbatim>\<open>Player.botPlay\<close> of the missing \<^verbatim>\<open>Player.ts\<close>, which is left open: it
  may do to the room whatever a bot's turn does. In the skip branch the seat stepped to
  is dereferenced at once, which throws when there is none; at the end an undefined next
  player is stored and the method returns.
\<close>

definition nextTurn_with ::
  "(Room \<Rightarrow> ref \<Rightarrow> int \<Rightarrow> error + Room) \<Rightarrow> (ref \<Rightarrow> Room \<Rightarrow> error + Room)
     \<Rightarrow> Room \<Rightarrow> bool \<Rightarrow> int \<Rightarrow> error + Room"
where
  "nextTurn_with drawCards' botPlay r skip draw =
     (let r1 = r\<lparr>inactivityTimer := 0\<rparr>
      in case turn r1 of
           None \<Rightarrow> Inl TypeError
         | Some t \<Rightarrow>
             (let r2 = upd_player t
                         (\<lambda>pl. (clearPlayableCards pl)\<lparr>canDraw := False, canPlay := False\<rparr>) r1
              in case (if skip \<or> draw \<noteq> 0
                       then (case getNextPlayer r2 0 of
                               Inl e \<Rightarrow> Inl e
                             | Inr None \<Rightarrow> Inl TypeError
                             | Inr (Some q) \<Rightarrow>
                                 (let r3 = upd_player q (\<lambda>pl. pl\<lparr>canDraw := False, canPlay := False\<rparr>)
                                             (r2\<lparr>turn := Some q\<rparr>)
                                  in case broadcastState r3 of
                                       Inl e \<Rightarrow> Inl e
                                     | Inr r4 \<Rightarrow> if draw \<noteq> 0 then drawCards' r4 q draw else Inr r4))
                       else Inr r2) of
                   Inl e \<Rightarrow> Inl e
                 | Inr r5 \<Rightarrow>
                     (case getNextPlayer r5 0 of
                        Inl e \<Rightarrow> Inl e
                      | Inr None \<Rightarrow> Inr (r5\<lparr>turn := None\<rparr>)
                      | Inr (Some n) \<Rightarrow>
                          (let r6 = upd_player n (\<lambda>pl. pl\<lparr>canDraw := True, canPlay := True\<rparr>)
                                      (r5\<lparr>turn := Some n\<rparr>)
                           in case topCard r6 of
                                None \<Rightarrow> Inl TypeError
                              | Some tc \<Rightarrow>
                                  (let r7 = upd_player n (findPlayableCards tc) r6;
                                       r8 = checkForWinner r7
                                   in case broadcastState r8 of
                                        Inl e \<Rightarrow> Inl e
                                      | Inr r9 \<Rightarrow>
                                          if winner r9 \<noteq> None then Inr r9
                                          else if bot_flag (heap r9 n) then botPlay n r9
                                          else Inr r9)))))"

text \<open>
  The two methods call each other, but never in a cycle: the loop of \<^verbatim>\<open>drawCards\<close> calls
  \<^verbatim>\<open>this.nextTurn()\<close> with the default arguments \<^verbatim>\<open>skip = false\<close>, \<^verbatim>\<open>draw = 0\<close>, under
  which \<^verbatim>\<open>nextTurn\<close> does not reach its call of \<^verbatim>\<open>drawCards\<close>.
\<close>

definition nextTurn_default :: "(ref \<Rightarrow> Room \<Rightarrow> error + Room) \<Rightarrow> Room \<Rightarrow> error + Room" where
  "nextTurn_default botPlay r = nextTurn_with (\<lambda>r' q a. Inr r') botPlay r False 0"

definition drawCards :: "(ref \<Rightarrow> Room \<Rightarrow> error + Room) \<Rightarrow> Room \<Rightarrow> ref \<Rightarrow> int \<Rightarrow> error + Room" where
  "drawCards botPlay r player amount = drawCards_with (nextTurn_default botPlay) r player amount"

definition nextTurn :: "(ref \<Rightarrow> Room \<Rightarrow> error + Room) \<Rightarrow> Room \<Rightarrow> bool \<Rightarrow> int \<Rightarrow> error + Room" where
  "nextTurn botPlay r skip draw = nextTurn_with (drawCards botPlay) botPlay r skip draw"

section \<open>Room: playing a card\<close>

text \<open>The \<^verbatim>\<open>switch (card.type)\<close> of \<^verbatim>\<open>playCard\<close>: the forced draw it asks for and the room
  after it. \<^verbatim>\<open>nextPlayer.cards\<close> throws when there is no next player.\<close>

definition playCard_switch :: "Room \<Rightarrow> Card \<Rightarrow> ref option \<Rightarrow> error + (int \<times> Room)" where
  "playCard_switch r c nextPlayer =
     (case ctype c of
        Plus2 \<Rightarrow>
          (case nextPlayer of
             None \<Rightarrow> Inl TypeError
           | Some np \<Rightarrow>
               if findIndex (\<lambda>x. ctype x = Plus2) (cards (heap r np)) \<noteq> - 1
               then Inr (0, (upd_player np (\<lambda>pl. pl\<lparr>mustStack := True\<rparr>) r)\<lparr>stack := stack r + 2\<rparr>)
               else Inr (stack r + 2, clearStack r))
      | Plus4 \<Rightarrow>
          (case nextPlayer of
             None \<Rightarrow> Inl TypeError
           | Some np \<Rightarrow>
               if findIndex (\<lambda>x. ctype x = Plus4) (cards (heap r np)) \<noteq> - 1
               then Inr (0, (upd_player np (\<lambda>pl. pl\<lparr>mustStack := True\<rparr>) r)\<lparr>stack := stack r + 4\<rparr>)
               else Inr (stack r + 4, clearStack r))
      | Reverse \<Rightarrow> Inr (0, r\<lparr>directionReversed := \<not> directionReversed r\<rparr>)
      | _ \<Rightarrow> Inr (0, r))"

text \<open>
  \<^verbatim>\<open>playCard(player, cardIndex)\<close>. The guard is evaluated left to right, so an undefined
  \<^verbatim>\<open>turn\<close> is only read (and throws) once \<^verbatim>\<open>canPlay\<close> holds and the indexed card exists.
  \<^verbatim>\<open>!nextPlayer.mustStack\<close> is only evaluated for a Plus2 or Plus4, where a missing next
  player has thrown in the \<^verbatim>\<open>switch\<close> already. The index is an integer, an index outside
  the hand reads \<^verbatim>\<open>undefined\<close> and the play is ignored. The counters of the statistics
  (\<^verbatim>\<open>incrementStat\<close>) are outside the room and left out.
\<close>

definition playCard :: "(ref \<Rightarrow> Room \<Rightarrow> error + Room) \<Rightarrow> Room \<Rightarrow> ref \<Rightarrow> int \<Rightarrow> error + Room" where
  "playCard botPlay r player cardIndex =
     (if \<not> canPlay (heap r player) then Inr r
      else case at_index (cards (heap r player)) cardIndex of
             None \<Rightarrow> Inr r
           | Some c \<Rightarrow>
               (case turn r of
                  None \<Rightarrow> Inl TypeError
                | Some t \<Rightarrow>
                    if player_id (heap r t) \<noteq> player_id (heap r player) then Inr r
                    else if \<not> playable c then Inr r
                    else
                      (let r1 = r\<lparr>wildcard := None\<rparr>;
                           r2 = upd_player player
                                  (\<lambda>pl. pl\<lparr>cards := take (nat cardIndex) (cards pl)
                                                       @ drop (Suc (nat cardIndex)) (cards pl)\<rparr>) r1;
                           r3 = r2\<lparr>pile := pile r2 @ [c]\<rparr>
                       in case getNextPlayer r3 0 of
                            Inl e \<Rightarrow> Inl e
                          | Inr nextPlayer \<Rightarrow>
                              (case playCard_switch r3 c nextPlayer of
                                 Inl e \<Rightarrow> Inl e
                               | Inr (draw, r4) \<Rightarrow>
                                   (case (if length (cards (heap r4 player)) = 1
                                             \<and> \<not> hasCalledUno (heap r4 player)
                                          then drawCards botPlay r4 player 2 else Inr r4) of
                                      Inl e \<Rightarrow> Inl e
                                    | Inr r5 \<Rightarrow>
                                        (let r6 = upd_player player (\<lambda>pl. pl\<lparr>hasCalledUno := False\<rparr>) r5
                                         in if ((ctype c = Plus2 \<or> ctype c = Plus4)
                                                 \<and> (case nextPlayer of
                                                       None \<Rightarrow> True
                                                     | Some np \<Rightarrow> \<not> mustStack (heap r6 np)))
                                               \<or> ctype c = Skip
                                            then nextTurn botPlay r6 True draw
                                            else nextTurn botPlay r6 False 0))))))"

section \<open>Room: joining, leaving and bots\<close>

definition addPlayer :: "Room \<Rightarrow> ref \<Rightarrow> error + Room" where
  "addPlayer r player =
     (let r1 = upd_player player (\<lambda>pl. pl\<lparr>roomId := room_id r, inRoom := True\<rparr>) r;
          r2 = r1\<lparr>players := players r1 @ [player]\<rparr>
      in broadcastState r2)"

definition botNames :: "string list" where
  "botNames = [''John'', ''James'', ''Alice'', ''Sean'', ''Joe'', ''Fred'', ''Bob'', ''Pat'',
               ''Jack'', ''Adam'', ''Nathaniel'', ''Freddie'', ''Baka'', ''Sussy'']"

text \<open>
  \<^verbatim>\<open>createBot(player?)\<close>. The new player object takes the next free reference. Where its
  identifier comes from is in the missing \<^verbatim>\<open>Player.ts\<close>; the model reads it from the
  tape, as it does the choice of the name. A replacement bot gets a copy of the
  departing player's hand.
\<close>

definition createBot :: "Room \<Rightarrow> ref option \<Rightarrow> ref \<times> Room" where
  "createBot r player =
     (let b = next_ref r;
          pl0 = (new_Player (rnd r (rnd_pos r)) None True)
                  \<lparr>inRoom := True, roomId := room_id r,
                   username := ''Bot '' @ botNames ! (rnd r (Suc (rnd_pos r)) mod length botNames)\<rparr>;
          pl1 = (case player of None \<Rightarrow> pl0 | Some p \<Rightarrow> pl0\<lparr>cards := cards (heap r p)\<rparr>)
      in (b, r\<lparr>heap := (heap r)(b := pl1), next_ref := Suc b, rnd_pos := rnd_pos r + 2\<rparr>))"

text \<open>
  \<^verbatim>\<open>addBot(bot, player?)\<close>. When the player to replace is not seated, \<^verbatim>\<open>findIndex\<close> gives -1
  and \<^verbatim>\<open>this.players[-1] = bot\<close> sets a property that is no element: the seating stays
  as it is.
\<close>

definition addBot :: "(ref \<Rightarrow> Room \<Rightarrow> error + Room) \<Rightarrow> Room \<Rightarrow> ref \<Rightarrow> ref option \<Rightarrow> error + Room" where
  "addBot botPlay r b player =
     (case player of
        Some p \<Rightarrow>
          (let index = findIndex (\<lambda>q. player_id (heap r q) = player_id (heap r p)) (players r);
               r1 = (if 0 \<le> index then r\<lparr>players := (players r)[nat index := b]\<rparr> else r)
           in case turn r1 of
                None \<Rightarrow> Inl TypeError
              | Some t \<Rightarrow>
                  if player_id (heap r1 t) = player_id (heap r1 p)
                  then botPlay b (r1\<lparr>turn := Some b\<rparr>)
                  else Inr r1)
      | None \<Rightarrow>
          if length (players r) = 4 then Inr r
          else Inr (r\<lparr>players := players r @ [b]\<rparr>))"

text \<open>
  \<^verbatim>\<open>removePlayer(player, replace)\<close>. It calls itself on the host when one human is left
  after a removal without replacement; in a room whose host is not that human the call
  repeats without end, so the result is optional. The analytics counters are not
  modelled.
\<close>

partial_function (option) removePlayer ::
  "(ref \<Rightarrow> Room \<Rightarrow> error + Room) \<Rightarrow> Room \<Rightarrow> ref \<Rightarrow> bool \<Rightarrow> (error + Room) option"
where
  "removePlayer botPlay r player replace =
     (let humans = filter (\<lambda>p. \<not> bot_flag (heap r p)
                                \<and> player_id (heap r p) \<noteq> player_id (heap r player)) (players r);
          r1 = (if length humans = 0 then r\<lparr>isRoomEmpty := True\<rparr>
                else if player_id (heap r (host r)) = player_id (heap r player)
                     then r\<lparr>host := humans ! (rnd r (rnd_pos r) mod length humans),
                            rnd_pos := Suc (rnd_pos r)\<rparr>
                     else r)
      in case (if replace \<and> \<not> isRoomEmpty r1
               then (case createBot r1 (Some player) of
                       (b, r1') \<Rightarrow> addBot botPlay r1' b (Some player))
               else Inr (r1\<lparr>players := filter (\<lambda>p. player_id (heap r1 p) \<noteq> player_id (heap r1 player))
                                               (players r1)\<rparr>)) of
           Inl e \<Rightarrow> Some (Inl e)
         | Inr r2 \<Rightarrow>
             (case broadcastState r2 of
                Inl e \<Rightarrow> Some (Inl e)
              | Inr r3 \<Rightarrow>
                  (let r4 = upd_player player (\<lambda>pl. pl\<lparr>roomId := [], inRoom := False, cards := []\<rparr>) r3
                   in if length humans = 1 \<and> \<not> replace \<and> started r4
                      then Option.bind (removePlayer botPlay r4 (host r4) False)
                             (\<lambda>res. case res of
                                      Inl e \<Rightarrow> Some (Inl e)
                                    | Inr r5 \<Rightarrow> Some (Inr (emit (host r5) Kicked r5)))
                      else Some (Inr r4))))"

section \<open>The gateway\<close>

text \<open>
  The registry \<^verbatim>\<open>rooms\<close> of \<^verbatim>\<open>socket.ts\<close> maps room codes to rooms; all rooms live in
  one world. A room is taken out of the registry together with the world, worked on,
  and both are written back. The handler's own player object (\<^verbatim>\<open>players[socket.id]\<close>)
  is the argument \<open>player\<close>, the room code asked for is \<open>code\<close>.
\<close>

record Server =
  world :: World
  rooms :: "string \<rightharpoonup> unit Room_ext"

definition join_room :: "Server \<Rightarrow> ref \<Rightarrow> string \<Rightarrow> string \<Rightarrow> error + Server" where
  "join_room s player code username' =
     (if length code \<noteq> 7 then Inr s
      else case rooms s code of
             None \<Rightarrow> Inr s
           | Some room_fields \<Rightarrow>
               (let room = World.extend (world s) room_fields
                in if length (players room) = 4 \<or> started room then Inr s
                   else if inRoom (heap room player) then Inr s
                   else case addPlayer (upd_player player (\<lambda>pl. pl\<lparr>username := username'\<rparr>) room)
                                       player of
                          Inl e \<Rightarrow> Inl e
                        | Inr room' \<Rightarrow>
                            Inr (s\<lparr>world := World.truncate room',
                                   rooms := (rooms s)(code \<mapsto> World.more room')\<rparr>)))"

section \<open>Notions used in the properties\<close>

text \<open>The number of cards of a given shape (number, colour and type).\<close>

definition count_shape :: "(nat \<Rightarrow> CardColor \<Rightarrow> CardType \<Rightarrow> bool) \<Rightarrow> Card list \<Rightarrow> nat" where
  "count_shape Q cs = length (filter (\<lambda>c. Q (number c) (color c) (ctype c)) cs)"

text \<open>The messages one broadcast appends to the outbox, \<open>t\<close> being the turn player.\<close>

definition state_msgs :: "Room \<Rightarrow> ref \<Rightarrow> (ident \<times> message) list" where
  "state_msgs r t =
     concat (map (\<lambda>p. case socket (heap r p) of
                         None \<Rightarrow> []
                       | Some s \<Rightarrow> [(s, State_msg (state_for r (player_id (heap r t)) p))])
                 (filter (\<lambda>p. \<not> bot_flag (heap r p)) (players r)))"

text \<open>
  A table for concrete runs: alice (reference 0), bob (reference 1) and carol
  (reference 2), all human, alice to move and holding a red Plus2 marked playable; bob's
  hand, the pending stack and the seating are left open.
\<close>

definition alice :: Player where
  "alice = (new_Player 10 (Some 10) False)
             \<lparr>username := ''alice'', inRoom := True, roomId := ''ROOM001'',
              canDraw := True, canPlay := True,
              cards := [(new_Card 1 0 Red Plus2)\<lparr>playable := True\<rparr>,
                        new_Card 2 5 Red None_type,
                        new_Card 3 7 Green None_type]\<rparr>"

definition bob :: "Card list \<Rightarrow> Player" where
  "bob hand = (new_Player 11 (Some 11) False)
                \<lparr>username := ''bob'', inRoom := True, roomId := ''ROOM001'', cards := hand\<rparr>"

definition carol :: Player where
  "carol = (new_Player 12 (Some 12) False)
             \<lparr>username := ''carol'', inRoom := True, roomId := ''ROOM001'',
              cards := [new_Card 6 2 Yellow None_type]\<rparr>"

definition table :: "Card list \<Rightarrow> int \<Rightarrow> ref list \<Rightarrow> Room" where
  "table hand pending seats =
     \<lparr>heap = (\<lambda>_. new_Player 0 None False)(0 := alice, 1 := bob hand, 2 := carol),
      next_ref = 3, rnd = (\<lambda>_. 0), rnd_pos = 0, outbox = [],
      room_id = ''ROOM001'', started = True, host = 0, players = seats,
      deck = [new_Card 20 4 Blue None_type, new_Card 21 6 Yellow None_type,
              new_Card 22 0 None_color Wildcard, new_Card 23 8 Green None_type],
      pile = [new_Card 30 1 Red None_type],
      turn = Some 0, directionReversed = False, stack = pending, winner = None,
      isRoomEmpty = False, inactivityTimer = 0, wildcard = None,
      settings = \<lparr>stacking = True, forcePlay = False, bluffing = False, drawToPlay = True,
                  public_room = False, maxPlayers = 4\<rparr>\<rparr>"

text \<open>A bot policy that does nothing, for runs in which no bot is seated.\<close>

definition idle_bot :: "ref \<Rightarrow> Room \<Rightarrow> error + Room" where
  "idle_bot b r = Inr r"

text \<open>The payload \<^verbatim>\<open>broadcastState\<close> computes for a viewer (none when reading
  \<^verbatim>\<open>this.turn.id\<close> throws).\<close>

definition view :: "Room \<Rightarrow> ref \<Rightarrow> RoomState option" where
  "view r viewer = map_option (\<lambda>t. state_for r (player_id (heap r t)) viewer) (turn r)"

text \<open>The one-seat advance \<^verbatim>\<open>this.turn = this.getNextPlayer()\<close> of \<^verbatim>\<open>nextTurn\<close>; a throw
  leaves the room as it is.\<close>

definition advance_turn :: "Room \<Rightarrow> Room" where
  "advance_turn r = (case getNextPlayer r 0 of Inl e \<Rightarrow> r | Inr q \<Rightarrow> r\<lparr>turn := q\<rparr>)"

text \<open>What identifies a card whatever colour it has been assigned and whether or not it is
  marked playable, and all the cards a room holds: the deck, the pile and the hand of
  every player of the room.\<close>

definition card_ident :: "Card \<Rightarrow> ident \<times> nat \<times> CardType" where
  "card_ident c = (card_id c, number c, ctype c)"

definition all_cards :: "Room \<Rightarrow> Card list" where
  "all_cards r = deck r @ pile r @ concat (map (\<lambda>p. cards (heap r p)) (remdups (players r)))"

text \<open>The cards a room can still deal: the deck, and the pile without its top card.\<close>

definition dealable :: "Room \<Rightarrow> nat" where
  "dealable r = length (deck r) + (length (pile r) - 1)"

text \<open>The table after alice and bob have both run out of cards.\<close>

definition both_out :: Room where
  "both_out = upd_player 0 (\<lambda>pl. pl\<lparr>cards := []\<rparr>) (table [] 0 [0, 1])"

text \<open>A started room with four seats taken, and a gateway whose registry holds it.\<close>

definition full_table :: Room where
  "full_table = table [] 0 [0, 1, 2, 3]"

definition gateway :: Server where
  "gateway = \<lparr>world = World.truncate full_table,
              rooms = [''ROOM001'' \<mapsto> World.more full_table]\<rparr>"

text \<open>
  \<open>dealt r p n r'\<close>: the room \<open>r'\<close> is \<open>r\<close> after \<open>n\<close> cards have gone from deck and pile
  to the hand of \<open>p\<close>. Only the hand of \<open>p\<close> and its last-drawn index, the deck, the
  pile, the tape position and the outbox differ; the hand is \<open>n\<close> cards longer; no card
  is lost or duplicated; the pile keeps its top card.
\<close>

definition dealt :: "Room \<Rightarrow> ref \<Rightarrow> nat \<Rightarrow> Room \<Rightarrow> bool" where
  "dealt r p n r' \<longleftrightarrow>
     (\<exists>cs l d pl rp ob.
        r' = r\<lparr>heap := (heap r)(p := (heap r p)\<lparr>cards := cs, lastDrawnCard := l\<rparr>),
               rnd_pos := rp, outbox := ob, deck := d, pile := pl\<rparr>
        \<and> length cs = length (cards (heap r p)) + n
        \<and> mset (map card_ident cs) + mset (map card_ident (d @ pl))
            = mset (map card_ident (cards (heap r p))) + mset (map card_ident (deck r @ pile r))
        \<and> length d + (length pl - 1) + n = dealable r
        \<and> pl \<noteq> [] \<and> last pl = last (pile r))"

text \<open>The table with the deck used up: only the top card of the pile is left.\<close>

definition bare_table :: Room where
  "bare_table = (table [] 0 [0, 1])\<lparr>deck := []\<rparr>"

text \<open>Alice (the host), bob and carol at the started table, bob to move.\<close>

definition bob_to_move :: Room where
  "bob_to_move = (table [] 0 [0, 1, 2])\<lparr>turn := Some 1\<rparr>"

text \<open>
  The end of \<^verbatim>\<open>nextTurn\<close>, from its last \<^verbatim>\<open>this.turn = this.getNextPlayer()\<close> on: the room
  in which the next player has been given the turn, and what \<^verbatim>\<open>nextTurn\<close> returns from
  there.
\<close>

definition turn_given :: "Room \<Rightarrow> ref \<Rightarrow> Card \<Rightarrow> Room" where
  "turn_given r n tc =
     checkForWinner
       (upd_player n (findPlayableCards tc)
          (upd_player n (\<lambda>pl. pl\<lparr>canDraw := True, canPlay := True\<rparr>) (r\<lparr>turn := Some n\<rparr>)))"

definition hand_over :: "(ref \<Rightarrow> Room \<Rightarrow> error + Room) \<Rightarrow> Room \<Rightarrow> error + Room" where
  "hand_over botPlay r =
     (case getNextPlayer r 0 of
        Inl e \<Rightarrow> Inl e
      | Inr None \<Rightarrow> Inr (r\<lparr>turn := None\<rparr>)
      | Inr (Some n) \<Rightarrow>
          (case topCard (upd_player n (\<lambda>pl. pl\<lparr>canDraw := True, canPlay := True\<rparr>) (r\<lparr>turn := Some n\<rparr>)) of
             None \<Rightarrow> Inl TypeError
           | Some tc \<Rightarrow>
               (case broadcastState (turn_given r n tc) of
                  Inl e \<Rightarrow> Inl e
                | Inr r9 \<Rightarrow>
                    if winner r9 \<noteq> None then Inr r9
                    else if bot_flag (heap r9 n) then botPlay n r9
                    else Inr r9)))"

text \<open>The room after the card at \<open>cardIndex\<close> has gone from the player's hand to the pile
  (the start of an accepted \<^verbatim>\<open>playCard\<close>).\<close>

definition card_laid :: "Room \<Rightarrow> ref \<Rightarrow> int \<Rightarrow> Card \<Rightarrow> Room" where
  "card_laid r player cardIndex c =
     (upd_player player
        (\<lambda>pl. pl\<lparr>cards := take (nat cardIndex) (cards pl) @ drop (Suc (nat cardIndex)) (cards pl)\<rparr>)
        (r\<lparr>wildcard := None\<rparr>))\<lparr>pile := pile r @ [c]\<rparr>"

text \<open>The table for two, with bob holding a single blue 3, and with bob holding a single
  blue Plus2.\<close>

definition plain_table :: Room where
  "plain_table = table [new_Card 5 3 Blue None_type] 0 [0, 1]"

definition stacking_table :: Room where
  "stacking_table = table [new_Card 5 0 Blue Plus2] 0 [0, 1]"

section \<open>Properties of the deck\<close>

lemma length_push_new: "length (push_new fresh n c t cs) = Suc (length cs)"
  by (simp add: push_new_def)

lemma length_push_numbers: "length (push_numbers fresh c cs) = length cs + 18"
proof -
  have "length (fold (\<lambda>n cs. push_new fresh n c None_type (push_new fresh n c None_type cs)) ns cs)
          = length cs + 2 * length ns" for ns
    by (induction ns arbitrary: cs) (simp_all add: length_push_new)
  from this [of "[1 ..< 10]"] show ?thesis by (simp add: push_numbers_def)
qed

lemma length_push_types:
  "length (push_types fresh c lo hi cs) = length cs + 2 * length (CardType_range lo hi)"
proof -
  have "length (fold (\<lambda>t cs. push_new fresh 0 c t (push_new fresh 0 c t cs)) ts cs)
          = length cs + 2 * length ts" for ts
    by (induction ts arbitrary: cs) (simp_all add: length_push_new)
  then show ?thesis by (simp add: push_types_def)
qed

lemma CardType_range_colored: "CardType_range Plus2 Skip = [Plus2, Reverse, Skip]"
  by (simp add: CardType_range_def CardType_all_def)

lemma CardType_range_wild: "CardType_range Wildcard Plus4 = [Wildcard, Plus4]"
  by (simp add: CardType_range_def CardType_all_def)

lemma count_push_new:
  "count_shape Q (push_new fresh n c t cs) = count_shape Q cs + (if Q n c t then 1 else 0)"
  by (simp add: count_shape_def push_new_def new_Card_def)

lemma count_push_numbers:
  "count_shape Q (push_numbers fresh c cs)
     = count_shape Q cs + 2 * length (filter (\<lambda>n. Q n c None_type) [1 ..< 10])"
proof -
  have "count_shape Q (fold (\<lambda>n cs. push_new fresh n c None_type (push_new fresh n c None_type cs)) ns cs)
          = count_shape Q cs + 2 * length (filter (\<lambda>n. Q n c None_type) ns)" for ns
    by (induction ns arbitrary: cs) (simp_all add: count_push_new)
  then show ?thesis by (simp add: push_numbers_def)
qed

lemma count_push_types:
  "count_shape Q (push_types fresh c lo hi cs)
     = count_shape Q cs + 2 * length (filter (\<lambda>t. Q 0 c t) (CardType_range lo hi))"
proof -
  have "count_shape Q (fold (\<lambda>t cs. push_new fresh 0 c t (push_new fresh 0 c t cs)) ts cs)
          = count_shape Q cs + 2 * length (filter (\<lambda>t. Q 0 c t) ts)" for ts
    by (induction ts arbitrary: cs) (simp_all add: count_push_new)
  then show ?thesis by (simp add: push_types_def)
qed

lemma count_generateDeck:
  "count_shape Q (generateDeck fresh) =
     (\<Sum>c\<leftarrow>colors. (if Q 0 c None_type then 1 else 0)
         + 2 * length (filter (\<lambda>n. Q n c None_type) [1 ..< 10])
         + 2 * length (filter (\<lambda>t. Q 0 c t) [Plus2, Reverse, Skip]))
     + 2 * length (filter (\<lambda>t. Q 0 None_color t) [Wildcard, Plus4])"
  by (simp add: generateDeck_def colors_def count_push_types count_push_numbers count_push_new
      CardType_range_colored CardType_range_wild count_shape_def[of Q "[]"])

text \<open>
  Claim C1 says that \<^verbatim>\<open>Deck.generateDeck\<close> always produces exactly 108 cards: 25 of each
  of the four colours, plus 4 colourless Wildcard and 4 colourless Plus4 cards. The code
  produces 104 cards whatever identifiers the cards get: 25 of each colour as claimed,
  but only 2 Wildcard and 2 Plus4 cards (4 colourless cards, not 8), because the last
  loop, under the comment \<^verbatim>\<open>create 4 of wildcard, plus4\<close>, pushes two cards for each of
  the two types.
\<close>

theorem generateDeck_builds_104_cards:
  "length (generateDeck fresh) = 104
   \<and> length (filter (\<lambda>c. ctype c = Wildcard) (generateDeck fresh)) = 2
   \<and> length (filter (\<lambda>c. ctype c = Plus4) (generateDeck fresh)) = 2
   \<and> length (filter (\<lambda>c. color c = None_color) (generateDeck fresh)) = 4
   \<and> length (filter (\<lambda>c. color c = Red) (generateDeck fresh)) = 25
   \<and> length (filter (\<lambda>c. color c = Yellow) (generateDeck fresh)) = 25
   \<and> length (filter (\<lambda>c. color c = Green) (generateDeck fresh)) = 25
   \<and> length (filter (\<lambda>c. color c = Blue) (generateDeck fresh)) = 25"
proof -
  have len: "length (generateDeck fresh) = 104"
    by (simp add: generateDeck_def colors_def length_push_types length_push_numbers length_push_new
      CardType_range_colored CardType_range_wild)
  have w: "length (filter (\<lambda>c. ctype c = Wildcard) (generateDeck fresh)) = 2"
    using count_generateDeck [of "\<lambda>n c t. t = Wildcard" fresh]
    by (simp add: count_shape_def colors_def)
  have p: "length (filter (\<lambda>c. ctype c = Plus4) (generateDeck fresh)) = 2"
    using count_generateDeck [of "\<lambda>n c t. t = Plus4" fresh]
    by (simp add: count_shape_def colors_def)
  have col: "length (filter (\<lambda>c. color c = k) (generateDeck fresh))
               = (if k = None_color then 4 else 25)" for k
    using count_generateDeck [of "\<lambda>n c t. c = k" fresh]
    by (cases k) (simp_all add: count_shape_def colors_def)
  show ?thesis using len w p by (simp add: col)
qed

section \<open>Arrays and seats\<close>

lemma findIndex_distinct:
  assumes "distinct (map f xs)" and "i < length xs"
  shows "findIndex (\<lambda>x. f x = f (xs ! i)) xs = int i"
  using assms
proof (induction xs arbitrary: i)
  case Nil
  then show ?case by simp
next
  case (Cons x xs)
  show ?case
  proof (cases i)
    case 0
    then show ?thesis by simp
  next
    case (Suc j)
    with Cons.prems have j: "j < length xs" and d: "distinct (map f xs)" and nx: "f x \<notin> f ` set xs"
      by simp_all
    from j nx have "f x \<noteq> f (xs ! j)" by (metis imageI nth_mem)
    moreover have "findIndex (\<lambda>y. f y = f (xs ! j)) xs = int j"
      by (rule Cons.IH [OF d j])
    ultimately show ?thesis using Suc by (simp add: Let_def)
  qed
qed

lemma findIndex_none: "findIndex P xs = - 1 \<longleftrightarrow> (\<forall>x \<in> set xs. \<not> P x)"
proof (induction xs)
  case Nil
  show ?case by simp
next
  case (Cons x xs)
  have "- 1 \<le> findIndex P ys" for ys
    by (induction ys) (simp_all add: Let_def)
  from this [of xs] Cons show ?case
    by (auto simp: Let_def)
qed

lemma at_index_nat: "k < length xs \<Longrightarrow> at_index xs (int k) = Some (xs ! k)"
  by (simp add: at_index_def)

lemma at_index_mem: "at_index xs i = Some x \<Longrightarrow> x \<in> set xs"
  by (auto simp: at_index_def split: if_splits)

lemma getNextPlayer_cong:
  assumes "turn r' = turn r" and "players r' = players r"
    and "directionReversed r' = directionReversed r"
    and "\<And>x. player_id (heap r' x) = player_id (heap r x)"
  shows "getNextPlayer r' k = getNextPlayer r k"
  unfolding getNextPlayer_def by (simp only: assms)

lemma getNextPlayer_seated: "getNextPlayer r k = Inr (Some q) \<Longrightarrow> q \<in> set (players r)"
  by (auto simp: getNextPlayer_def Let_def split: option.splits if_splits dest: at_index_mem)

lemma getNextPlayer_seat:
  assumes d: "distinct (map (\<lambda>p. player_id (heap r p)) (players r))"
    and i: "i < length (players r)"
    and t: "turn r = Some (players r ! i)"
  shows "getNextPlayer r 0
           = Inr (Some (players r ! ((if directionReversed r then i + (length (players r) - 1) else i + 1)
                                      mod length (players r))))"
proof -
  define n where "n = length (players r)"
  define k where "k = (if directionReversed r then i + (n - 1) else i + 1) mod n"
  have fi: "findIndex (\<lambda>p. player_id (heap r p) = player_id (heap r (players r ! i))) (players r) = int i"
    by (rule findIndex_distinct [OF d i])
  have n: "0 < n" "i < n" using i by (auto simp: n_def)
  have bwd: "(i + (n - 1)) mod n = (if i = 0 then n - 1 else i - 1)"
  proof (cases "i = 0")
    case True
    with n show ?thesis by simp
  next
    case False
    then have "i + (n - 1) = (i - 1) + n" using n by simp
    then have "(i + (n - 1)) mod n = (i - 1) mod n" by (metis mod_add_self2)
    with False n show ?thesis by simp
  qed
  have fwd: "(i + 1) mod n = (if i + 1 = n then 0 else i + 1)"
    using n by simp
  have gen: "getNextPlayer r 0
        = Inr (at_index (players r)
                 (if directionReversed r
                  then (if int i - 1 < 0 then int n + (int i - 1) else int i - 1)
                  else (if int i + 1 > int n - 1 then int i + 1 - int n else int i + 1)))"
    by (simp add: getNextPlayer_def t fi Let_def n_def)
  have idx: "(if directionReversed r
                  then (if int i - 1 < 0 then int n + (int i - 1) else int i - 1)
                  else (if int i + 1 > int n - 1 then int i + 1 - int n else int i + 1)) = int k"
  proof -
    define k' where "k' = (if directionReversed r then (if i = 0 then n - 1 else i - 1)
                           else (if i + 1 = n then 0 else i + 1))"
    have "k = k'"
      unfolding k_def k'_def by (cases "directionReversed r") (simp_all only: bwd fwd if_True if_False)
    moreover have "(if directionReversed r
                  then (if int i - 1 < 0 then int n + (int i - 1) else int i - 1)
                  else (if int i + 1 > int n - 1 then int i + 1 - int n else int i + 1)) = int k'"
      using n by (auto simp: k'_def of_nat_diff)
    ultimately show ?thesis by simp
  qed
  have "k < length (players r)"
    using n by (simp add: k_def n_def [symmetric])
  then have "at_index (players r) (int k) = Some (players r ! k)"
    by (rule at_index_nat)
  then show ?thesis
    unfolding gen idx by (simp add: k_def n_def)
qed

lemma advance_turn_iter:
  assumes d: "distinct (map (\<lambda>p. player_id (heap r p)) (players r))"
    and i: "i < length (players r)"
    and t: "turn r = Some (players r ! i)"
  shows "(advance_turn ^^ k) r
           = r\<lparr>turn := Some (players r ! ((i + k * (if directionReversed r then length (players r) - 1 else 1))
                                          mod length (players r)))\<rparr>"
proof (induction k)
  case 0
  from i t show ?case by simp
next
  case (Suc k)
  define n where "n = length (players r)"
  define step where "step = (if directionReversed r then n - 1 else 1)"
  define j where "j = (i + k * step) mod n"
  define r' where "r' = r\<lparr>turn := Some (players r ! j)\<rparr>"
  have n: "0 < n" using i by (auto simp: n_def)
  have j: "j < length (players r')" using n by (simp add: j_def r'_def n_def [symmetric])
  have d': "distinct (map (\<lambda>p. player_id (heap r' p)) (players r'))"
    using d by (simp add: r'_def)
  have t': "turn r' = Some (players r' ! j)" by (simp add: r'_def)
  have "getNextPlayer r' 0 = Inr (Some (players r ! ((j + step) mod n)))"
    using getNextPlayer_seat [OF d' j t'] by (simp add: r'_def step_def n_def)
  moreover have "(j + step) mod n = (i + Suc k * step) mod n"
  proof -
    have "(j + step) mod n = (i + k * step + step) mod n"
      unfolding j_def by (rule mod_add_left_eq)
    also have "i + k * step + step = i + Suc k * step" by simp
    finally show ?thesis .
  qed
  ultimately have "advance_turn r' = r\<lparr>turn := Some (players r ! ((i + Suc k * step) mod n))\<rparr>"
    by (simp add: advance_turn_def r'_def)
  moreover have "(advance_turn ^^ k) r = r'"
    using Suc.IH by (simp add: r'_def j_def step_def n_def)
  ultimately show ?case by (simp add: step_def n_def)
qed

section \<open>Broadcasts\<close>

lemma emits_fold:
  "fold (\<lambda>p. emit p (m p)) vs w
     = w\<lparr>outbox := outbox w @ concat (map (\<lambda>p. case socket (heap w p) of
                                                  None \<Rightarrow> [] | Some s \<Rightarrow> [(s, m p)]) vs)\<rparr>"
proof (induction vs arbitrary: w)
  case Nil
  show ?case by simp
next
  case (Cons v vs)
  define w' where "w' = emit v (m v) w"
  have w': "w' = w\<lparr>outbox := outbox w @ (case socket (heap w v) of
                                            None \<Rightarrow> [] | Some s \<Rightarrow> [(s, m v)])\<rparr>"
    by (simp add: w'_def emit_def split: option.splits)
  have "fold (\<lambda>p. emit p (m p)) (v # vs) w = fold (\<lambda>p. emit p (m p)) vs w'"
    by (simp add: w'_def)
  also have "\<dots> = w'\<lparr>outbox := outbox w' @ concat (map (\<lambda>p. case socket (heap w' p) of
                                                  None \<Rightarrow> [] | Some s \<Rightarrow> [(s, m p)]) vs)\<rparr>"
    by (rule Cons.IH)
  finally show ?case by (simp add: w')
qed

lemma broadcastState_Some:
  assumes "turn r = Some t"
  shows "broadcastState r = Inr (r\<lparr>outbox := outbox r @ state_msgs r t\<rparr>)"
  using assms by (simp add: broadcastState_def state_msgs_def emits_fold Let_def)

lemma getPlayerPosFromOffset_cong:
  assumes "players r' = players r" and "\<And>x. player_id (heap r' x) = player_id (heap r x)"
  shows "getPlayerPosFromOffset r' v k = getPlayerPosFromOffset r v k"
  unfolding getPlayerPosFromOffset_def by (simp only: assms)

lemma opponent_view_outbox: "opponent_view (r\<lparr>outbox := ob\<rparr>) = opponent_view r"
  by (intro ext) (simp add: opponent_view_def)

lemma state_for_outbox [simp]: "state_for (r\<lparr>outbox := ob\<rparr>) = state_for r"
proof (intro ext)
  fix tid v
  have "getPlayerPosFromOffset (r\<lparr>outbox := ob\<rparr>) v k = getPlayerPosFromOffset r v k" for k
    by (rule getPlayerPosFromOffset_cong) simp_all
  then show "state_for (r\<lparr>outbox := ob\<rparr>) tid v = state_for r tid v"
    unfolding state_for_def Let_def by (simp add: opponent_view_outbox)
qed

lemma state_msgs_outbox [simp]: "state_msgs (r\<lparr>outbox := ob\<rparr>) t = state_msgs r t"
  by (simp add: state_msgs_def cong: option.case_cong)

lemma opponent_view_hidden_hand:
  assumes "length hand = length (cards (heap r q))"
  shows "opponent_view (upd_player q (\<lambda>pl. pl\<lparr>cards := hand\<rparr>) r) tid x = opponent_view r tid x"
  using assms by (simp add: opponent_view_def upd_player_def)

lemma state_for_hidden_hand:
  assumes "q \<noteq> viewer" and "length hand = length (cards (heap r q))"
  shows "state_for (upd_player q (\<lambda>pl. pl\<lparr>cards := hand\<rparr>) r) tid viewer = state_for r tid viewer"
proof -
  define r' where "r' = upd_player q (\<lambda>pl. pl\<lparr>cards := hand\<rparr>) r"
  have ids: "player_id (heap r' x) = player_id (heap r x)" for x
    by (simp add: r'_def upd_player_def)
  have names: "username (heap r' x) = username (heap r x)" for x
    by (simp add: r'_def upd_player_def)
  have pos: "getPlayerPosFromOffset r' viewer k = getPlayerPosFromOffset r viewer k" for k
    by (rule getPlayerPosFromOffset_cong) (simp_all add: ids, simp add: r'_def upd_player_def)
  have opp: "opponent_view r' tid = opponent_view r tid"
    by (intro ext) (simp add: r'_def opponent_view_hidden_hand [OF assms(2)])
  have own: "heap r' viewer = heap r viewer"
    using assms(1) by (simp add: r'_def upd_player_def)
  have rest: "room_id r' = room_id r" "host r' = host r" "pile r' = pile r" "started r' = started r"
    "directionReversed r' = directionReversed r" "stack r' = stack r" "players r' = players r"
    "settings r' = settings r" "wildcard r' = wildcard r" "winner r' = winner r"
    by (simp_all add: r'_def upd_player_def)
  show ?thesis
    unfolding r'_def [symmetric] state_for_def Let_def
    by (simp only: pos opp own rest ids names)
qed

section \<open>The winner and the stack\<close>

lemma checkForWinner_eq:
  "checkForWinner r
     = r\<lparr>winner := (case filter (\<lambda>p. cards (heap r p) = []) (players r) of
                       [] \<Rightarrow> winner r | q # qs \<Rightarrow> Some (last (q # qs)))\<rparr>"
proof -
  have "fold (\<lambda>p r'. if cards (heap r' p) = [] then r'\<lparr>winner := Some p\<rparr> else r') ps r0
     = r0\<lparr>winner := (case filter (\<lambda>p. cards (heap r0 p) = []) ps of
                       [] \<Rightarrow> winner r0 | q # qs \<Rightarrow> Some (last (q # qs)))\<rparr>" for ps and r0 :: Room
  proof (induction ps arbitrary: r0)
    case Nil
    show ?case by simp
  next
    case (Cons p ps)
    show ?case
    proof (cases "cards (heap r0 p) = []")
      case True
      then show ?thesis
        using Cons.IH [of "r0\<lparr>winner := Some p\<rparr>"]
        by (simp split: list.splits)
    next
      case False
      then show ?thesis using Cons.IH [of r0] by simp
    qed
  qed
  then show ?thesis by (simp add: checkForWinner_def)
qed

lemma upd_players_fold:
  assumes "\<And>pl. f (f pl) = f pl"
  shows "fold (\<lambda>p. upd_player p f) ps w
           = w\<lparr>heap := (\<lambda>x. if x \<in> set ps then f (heap w x) else heap w x)\<rparr>"
proof (induction ps arbitrary: w)
  case Nil
  show ?case by simp
next
  case (Cons p ps)
  have "fold (\<lambda>p. upd_player p f) (p # ps) w = fold (\<lambda>p. upd_player p f) ps (upd_player p f w)"
    by simp
  also have "\<dots> = (upd_player p f w)\<lparr>heap := (\<lambda>x. if x \<in> set ps then f (heap (upd_player p f w) x)
                                                 else heap (upd_player p f w) x)\<rparr>"
    by (rule Cons.IH)
  also have "\<dots> = w\<lparr>heap := (\<lambda>x. if x \<in> set (p # ps) then f (heap w x) else heap w x)\<rparr>"
    by (auto simp: upd_player_def assms fun_eq_iff)
  finally show ?case .
qed

lemma clearStack_eq:
  "clearStack r = r\<lparr>heap := (\<lambda>x. if x \<in> set (players r) then (heap r x)\<lparr>mustStack := False\<rparr>
                                   else heap r x),
                     stack := 0\<rparr>"
proof -
  have "clearStack r = (r\<lparr>stack := 0\<rparr>)\<lparr>heap := (\<lambda>x. if x \<in> set (players r)
                                                  then (heap (r\<lparr>stack := 0\<rparr>) x)\<lparr>mustStack := False\<rparr>
                                                  else heap (r\<lparr>stack := 0\<rparr>) x)\<rparr>"
    unfolding clearStack_def
    using upd_players_fold [of "\<lambda>pl. pl\<lparr>mustStack := False\<rparr>" "players r" "r\<lparr>stack := 0\<rparr>"]
    by simp
  then show ?thesis by (intro Room.equality) (simp_all cong: if_cong)
qed

section \<open>Shuffling and refilling\<close>

lemma length_shuffle_loop [simp]: "length (shuffle_loop f pos k cs) = length cs"
  by (induction k arbitrary: pos cs) (simp_all add: Let_def)

lemma mset_shuffle_loop: "k \<le> length cs \<Longrightarrow> mset (shuffle_loop f pos k cs) = mset cs"
proof (induction k arbitrary: pos cs)
  case 0
  show ?case by simp
next
  case (Suc k)
  define j where "j = f pos mod Suc k"
  have j: "j < length cs" and k: "k < length cs"
    using Suc.prems by (simp_all add: j_def less_le_trans [OF mod_less_divisor])
  have "mset (cs[k := cs ! j, j := cs ! k]) = mset cs"
    by (rule mset_swap [OF j k])
  moreover have "k \<le> length (cs[k := cs ! j, j := cs ! k])"
    using k by simp
  ultimately show ?case
    using Suc.IH [of "cs[k := cs ! j, j := cs ! k]" "Suc pos"] by (simp add: Let_def j_def)
qed

lemma mset_shuffleDeck [simp]: "mset (shuffleDeck f pos cs) = mset cs"
  by (simp add: shuffleDeck_def mset_shuffle_loop)

lemma length_shuffleDeck [simp]: "length (shuffleDeck f pos cs) = length cs"
  by (simp add: shuffleDeck_def)

lemma card_ident_strip:
  "map card_ident (map (\<lambda>c. if ctype c = Wildcard \<or> ctype c = Plus4 then c\<lparr>color := None_color\<rparr> else c) cs)
     = map card_ident cs"
  by (induction cs) (simp_all add: card_ident_def)

lemma refill_facts:
  "pile (refillDeckFromPile r) = drop (length (pile r) - 1) (pile r)"
  "mset (map card_ident (deck (refillDeckFromPile r)))
     = mset (map card_ident (deck r)) + mset (map card_ident (take (length (pile r) - 1) (pile r)))"
  "length (deck (refillDeckFromPile r)) = length (deck r) + (length (pile r) - 1)"
  "\<forall>c \<in> set (deck (refillDeckFromPile r)). ctype c = Wildcard \<or> ctype c = Plus4 \<longrightarrow> color c = None_color"
proof -
  define stripped where "stripped = map (\<lambda>c. if ctype c = Wildcard \<or> ctype c = Plus4 then c\<lparr>color := None_color\<rparr> else c)
                      (deck r @ take (length (pile r) - 1) (pile r))"
  have d: "deck (refillDeckFromPile r) = shuffleDeck (rnd r) (rnd_pos r) stripped"
    by (simp add: refillDeckFromPile_def Let_def stripped_def)
  show "pile (refillDeckFromPile r) = drop (length (pile r) - 1) (pile r)"
    by (simp add: refillDeckFromPile_def Let_def)
  have "mset (map card_ident (shuffleDeck (rnd r) (rnd_pos r) stripped)) = mset (map card_ident stripped)"
    by (metis mset_map mset_shuffleDeck)
  then show "mset (map card_ident (deck (refillDeckFromPile r)))
     = mset (map card_ident (deck r)) + mset (map card_ident (take (length (pile r) - 1) (pile r)))"
    unfolding d stripped_def card_ident_strip by simp
  show "length (deck (refillDeckFromPile r)) = length (deck r) + (length (pile r) - 1)"
    by (simp add: d stripped_def)
  have "set (shuffleDeck (rnd r) (rnd_pos r) stripped) = set stripped"
    by (metis mset_shuffleDeck set_mset_mset)
  then show "\<forall>c \<in> set (deck (refillDeckFromPile r)). ctype c = Wildcard \<or> ctype c = Plus4 \<longrightarrow> color c = None_color"
    unfolding d by (auto simp: stripped_def)
qed

lemma refill_frame:
  "\<exists>d rp. refillDeckFromPile r = r\<lparr>pile := drop (length (pile r) - 1) (pile r), deck := d, rnd_pos := rp\<rparr>"
  unfolding refillDeckFromPile_def Let_def by (intro exI, rule refl)

section \<open>Dealing\<close>

lemma card_ident_playable [simp]: "card_ident (c\<lparr>playable := b\<rparr>) = card_ident c"
  by (simp add: card_ident_def)

lemma card_ident_flags:
  "map card_ident (map (\<lambda>c. c\<lparr>playable := g c\<rparr>) cs) = map card_ident cs"
  by (induction cs) (simp_all add: card_ident_def)

lemma findPlayableCards_cards:
  "findPlayableCards tc pl = pl\<lparr>cards := map (\<lambda>c. c\<lparr>playable :=
               (if mustStack pl then (ctype tc = Plus2 \<or> ctype tc = Plus4) \<and> ctype c = ctype tc
                else card_matches tc c)\<rparr>) (cards pl)\<rparr>"
  by (simp add: findPlayableCards_def)

lemma topCard_last: "pile r \<noteq> [] \<Longrightarrow> topCard r = Some (last (pile r))"
  by (simp add: topCard_def at_index_def last_conv_nth nat_diff_distrib' of_nat_diff Suc_leI)

lemma giveCard_deals:
  assumes t: "turn r = Some t" and ne: "pile r \<noteq> []" and avail: "0 < dealable r"
  shows "\<exists>c cs d pl rp.
           giveCard r p = Inr (Some c, r\<lparr>heap := (heap r)(p := (heap r p)\<lparr>cards := cs\<rparr>),
                                        rnd_pos := rp, deck := d, pile := pl\<rparr>)
           \<and> length cs = Suc (length (cards (heap r p)))
           \<and> mset (map card_ident cs) = mset (map card_ident (cards (heap r p))) + {#card_ident c#}
           \<and> Suc (length d + (length pl - 1)) = dealable r
           \<and> pl \<noteq> [] \<and> last pl = last (pile r)
           \<and> mset (map card_ident (d @ pl)) + {#card_ident c#} = mset (map card_ident (deck r @ pile r))"
proof -
  define r1 where "r1 = (if length (deck r) = 0 then refillDeckFromPile r else r)"
  obtain d0 rp where r1: "r1 = r\<lparr>pile := pile r1, deck := d0, rnd_pos := rp\<rparr>"
  proof (cases "length (deck r) = 0")
    case True
    from refill_frame [of r] obtain d rp
      where "refillDeckFromPile r = r\<lparr>pile := drop (length (pile r) - 1) (pile r), deck := d, rnd_pos := rp\<rparr>"
      by blast
    with True have "r1 = r\<lparr>pile := pile r1, deck := d, rnd_pos := rp\<rparr>"
      by (simp add: r1_def)
    then show ?thesis by (rule that)
  next
    case False
    then have "r1 = r\<lparr>pile := pile r1, deck := deck r, rnd_pos := rnd_pos r\<rparr>"
      by (simp add: r1_def)
    then show ?thesis by (rule that)
  qed
  have d0: "deck r1 = d0" by (subst r1) simp
  obtain topc below where pr: "pile r = below @ [topc]"
    using ne by (metis rev_exhaust)
  have dropped: "drop (length (pile r) - 1) (pile r) = [topc]" "length (pile r) - 1 = length below"
    by (simp_all add: pr)
  have pile1: "pile r1 \<noteq> []" "last (pile r1) = last (pile r)"
    by (simp_all add: r1_def refill_facts(1) dropped) (simp_all add: pr)
  have size1: "length (deck r1) + (length (pile r1) - 1) = dealable r"
    by (simp add: r1_def dealable_def refill_facts(1,3) dropped)
  have mset1: "mset (map card_ident (deck r1 @ pile r1)) = mset (map card_ident (deck r @ pile r))"
  proof (cases "length (deck r) = 0")
    case True
    have "mset (map card_ident (take (length (pile r) - 1) (pile r)))
            + mset (map card_ident (drop (length (pile r) - 1) (pile r)))
          = mset (map card_ident (pile r))"
      by (metis append_take_drop_id map_append mset_append)
    with True refill_facts(2) [of r] show ?thesis
      by (simp add: r1_def refill_facts(1))
  next
    case False
    then show ?thesis by (simp add: r1_def)
  qed
  from size1 avail pile1 have "deck r1 \<noteq> []"
    by (cases "deck r1") (auto simp: dealable_def r1_def refill_facts(1) split: if_splits)
  then obtain c rest where cr: "d0 = c # rest"
    unfolding d0 by (cases d0) auto
  define hand where "hand = cards (heap r p) @ [c]"
  define r2 where "r2 = upd_player p (\<lambda>pl. pl\<lparr>cards := cards pl @ [c]\<rparr>) (r1\<lparr>deck := rest\<rparr>)"
  have r2: "r2 = r\<lparr>heap := (heap r)(p := (heap r p)\<lparr>cards := hand\<rparr>),
                   rnd_pos := rp, deck := rest, pile := pile r1\<rparr>"
    unfolding r2_def hand_def by (subst r1) (simp add: upd_player_def)
  have top2: "topCard r2 = Some (last (pile r1))"
    using pile1 by (simp add: r2 topCard_last)
  define cs where "cs = (if player_id (heap r2 t) = player_id (heap r2 p) \<and> started r2
                          then cards (findPlayableCards (last (pile r1)) (heap r2 p)) else hand)"
  have res: "giveCard r p = Inr (Some c, r\<lparr>heap := (heap r)(p := (heap r p)\<lparr>cards := cs\<rparr>),
                                        rnd_pos := rp, deck := rest, pile := pile r1\<rparr>)"
  proof -
    have pk: "pickCard 0 (deck r1) = ([c], rest)"
      by (simp add: pickCard_def d0 cr)
    have t2: "turn r2 = Some t"
      using t by (simp add: r2)
    have first: "at_index [c] 0 = Some c"
      by (simp add: at_index_def)
    have "giveCard r p =
            (case turn r2 of
               None \<Rightarrow> Inl TypeError
             | Some t \<Rightarrow>
                 if player_id (heap r2 t) = player_id (heap r2 p) \<and> started r2
                 then (case topCard r2 of
                         None \<Rightarrow> Inl TypeError
                       | Some tc \<Rightarrow> Inr (Some c, upd_player p (findPlayableCards tc) r2))
                 else Inr (Some c, r2))"
      unfolding giveCard_def Let_def r1_def [symmetric]
      by (simp only: pk prod.case first r2_def)
    then have "giveCard r p = (if player_id (heap r2 t) = player_id (heap r2 p) \<and> started r2
                          then Inr (Some c, upd_player p (findPlayableCards (last (pile r1))) r2)
                          else Inr (Some c, r2))"
      by (simp only: t2 top2 option.case)
    then show ?thesis
      by (simp add: cs_def r2 upd_player_def findPlayableCards_cards)
  qed
  have len: "length cs = Suc (length (cards (heap r p)))"
    by (simp add: cs_def r2 hand_def findPlayableCards_cards)
  have ms: "mset (map card_ident cs) = mset (map card_ident (cards (heap r p))) + {#card_ident c#}"
    by (simp add: cs_def r2 hand_def findPlayableCards_cards multiset.map_comp comp_def)
  have sz: "Suc (length rest + (length (pile r1) - 1)) = dealable r"
    using size1 by (simp add: d0 cr)
  have ms2: "mset (map card_ident (rest @ pile r1)) + {#card_ident c#} = mset (map card_ident (deck r @ pile r))"
    using mset1 by (simp add: d0 cr)
  from res len ms sz pile1 ms2 show ?thesis by blast
qed

lemma giveCard_nothing:
  assumes "turn r = Some t" and "dealable r = 0"
    and "player_id (heap r t) \<noteq> player_id (heap r p)"
  shows "\<exists>r'. giveCard r p = Inr (None, r') \<and> deck r' = [] \<and> pile r' = pile r"
proof -
  from assms(2) have d: "deck r = []" and l: "length (pile r) - 1 = 0"
    by (simp_all add: dealable_def)
  have e: "deck (refillDeckFromPile r) = []"
    using refill_facts(3) [of r] d l by simp
  have f: "turn (refillDeckFromPile r) = Some t" "heap (refillDeckFromPile r) = heap r"
    "pile (refillDeckFromPile r) = pile r"
    using assms(1) l by (simp_all add: refillDeckFromPile_def Let_def)
  show ?thesis
    using assms(3)
    by (simp add: giveCard_def d e f pickCard_def at_index_def Let_def upd_player_def)
qed

lemma dealt_frame:
  assumes "dealt r p n r'"
  shows "turn r' = turn r" "players r' = players r" "directionReversed r' = directionReversed r"
    "started r' = started r" "isRoomEmpty r' = isRoomEmpty r" "stack r' = stack r"
    "winner r' = winner r" "settings r' = settings r" "host r' = host r"
    "x \<noteq> p \<Longrightarrow> heap r' x = heap r x"
    "player_id (heap r' x) = player_id (heap r x)" "bot_flag (heap r' x) = bot_flag (heap r x)"
    "mustStack (heap r' x) = mustStack (heap r x)" "drawing (heap r' x) = drawing (heap r x)"
    "canPlay (heap r' x) = canPlay (heap r x)" "canDraw (heap r' x) = canDraw (heap r x)"
    "hasCalledUno (heap r' x) = hasCalledUno (heap r x)"
    "length (cards (heap r' p)) = length (cards (heap r p)) + n"
    "dealable r' + n = dealable r" "pile r' \<noteq> []" "last (pile r') = last (pile r)"
proof -
  from assms obtain cs l d pl rp ob where
    r': "r' = r\<lparr>heap := (heap r)(p := (heap r p)\<lparr>cards := cs, lastDrawnCard := l\<rparr>),
               rnd_pos := rp, outbox := ob, deck := d, pile := pl\<rparr>"
    and a: "length cs = length (cards (heap r p)) + n"
      "length d + (length pl - 1) + n = dealable r" "pl \<noteq> []" "last pl = last (pile r)"
    unfolding dealt_def by blast
  show "turn r' = turn r" "players r' = players r" "directionReversed r' = directionReversed r"
    "started r' = started r" "isRoomEmpty r' = isRoomEmpty r" "stack r' = stack r"
    "winner r' = winner r" "settings r' = settings r" "host r' = host r"
    "x \<noteq> p \<Longrightarrow> heap r' x = heap r x"
    by (simp_all add: r')
  show "player_id (heap r' x) = player_id (heap r x)" "bot_flag (heap r' x) = bot_flag (heap r x)"
    "mustStack (heap r' x) = mustStack (heap r x)" "drawing (heap r' x) = drawing (heap r x)"
    "canPlay (heap r' x) = canPlay (heap r x)" "canDraw (heap r' x) = canDraw (heap r x)"
    "hasCalledUno (heap r' x) = hasCalledUno (heap r x)"
    by (cases "x = p"; simp add: r')+
  show "length (cards (heap r' p)) = length (cards (heap r p)) + n"
    "dealable r' + n = dealable r" "pile r' \<noteq> []" "last (pile r') = last (pile r)"
    using a by (simp_all add: r' dealable_def)
qed

lemma dealt_refl: "pile r \<noteq> [] \<Longrightarrow> dealt r p 0 r"
  unfolding dealt_def
  by (rule exI [of _ "cards (heap r p)"], rule exI [of _ "lastDrawnCard (heap r p)"],
      rule exI [of _ "deck r"], rule exI [of _ "pile r"], rule exI [of _ "rnd_pos r"],
      rule exI [of _ "outbox r"]) (simp add: dealable_def)

lemma dealt_trans:
  assumes "dealt r p m r'" and "dealt r' p n r''"
  shows "dealt r p (m + n) r''"
proof -
  from assms(1) obtain cs l d pl rp ob where
    r': "r' = r\<lparr>heap := (heap r)(p := (heap r p)\<lparr>cards := cs, lastDrawnCard := l\<rparr>),
               rnd_pos := rp, outbox := ob, deck := d, pile := pl\<rparr>"
    and a: "length cs = length (cards (heap r p)) + m"
      "mset (map card_ident cs) + mset (map card_ident (d @ pl))
            = mset (map card_ident (cards (heap r p))) + mset (map card_ident (deck r @ pile r))"
      "length d + (length pl - 1) + m = dealable r" "pl \<noteq> []" "last pl = last (pile r)"
    unfolding dealt_def by blast
  from assms(2) obtain cs' l' d' pl' rp' ob' where
    r'': "r'' = r'\<lparr>heap := (heap r')(p := (heap r' p)\<lparr>cards := cs', lastDrawnCard := l'\<rparr>),
               rnd_pos := rp', outbox := ob', deck := d', pile := pl'\<rparr>"
    and b: "length cs' = length (cards (heap r' p)) + n"
      "mset (map card_ident cs') + mset (map card_ident (d' @ pl'))
            = mset (map card_ident (cards (heap r' p))) + mset (map card_ident (deck r' @ pile r'))"
      "length d' + (length pl' - 1) + n = dealable r'" "pl' \<noteq> []" "last pl' = last (pile r')"
    unfolding dealt_def by blast
  have eq: "r'' = r\<lparr>heap := (heap r)(p := (heap r p)\<lparr>cards := cs', lastDrawnCard := l'\<rparr>),
               rnd_pos := rp', outbox := ob', deck := d', pile := pl'\<rparr>"
    by (simp add: r'' r')
  have 1: "length cs' = length (cards (heap r p)) + (m + n)"
    using a(1) b(1) by (simp add: r')
  have 2: "mset (map card_ident cs') + mset (map card_ident (d' @ pl'))
            = mset (map card_ident (cards (heap r p))) + mset (map card_ident (deck r @ pile r))"
    using a(2) b(2) by (simp add: r')
  have 3: "length d' + (length pl' - 1) + (m + n) = dealable r"
    using a(3) b(3) by (simp add: r' dealable_def)
  have 4: "last pl' = last (pile r)"
    using a(5) b(5) by (simp add: r')
  from eq 1 2 3 b(4) 4 show ?thesis
    unfolding dealt_def by blast
qed

lemma dealt_giveCard:
  assumes "turn r = Some t" and "pile r \<noteq> []" and "0 < dealable r"
  shows "\<exists>c r'. giveCard r p = Inr (Some c, r') \<and> dealt r p 1 r'"
proof -
  from giveCard_deals [OF assms, of p] obtain c cs d pl rp where
    g: "giveCard r p = Inr (Some c, r\<lparr>heap := (heap r)(p := (heap r p)\<lparr>cards := cs\<rparr>),
                                        rnd_pos := rp, deck := d, pile := pl\<rparr>)"
    and a: "length cs = Suc (length (cards (heap r p)))"
      "mset (map card_ident cs) = mset (map card_ident (cards (heap r p))) + {#card_ident c#}"
      "Suc (length d + (length pl - 1)) = dealable r" "pl \<noteq> []" "last pl = last (pile r)"
      "mset (map card_ident (d @ pl)) + {#card_ident c#} = mset (map card_ident (deck r @ pile r))"
    by blast
  define r' where "r' = r\<lparr>heap := (heap r)(p := (heap r p)\<lparr>cards := cs\<rparr>),
                                   rnd_pos := rp, deck := d, pile := pl\<rparr>"
  have "r' = r\<lparr>heap := (heap r)(p := (heap r p)\<lparr>cards := cs, lastDrawnCard := lastDrawnCard (heap r p)\<rparr>),
               rnd_pos := rp, outbox := outbox r, deck := d, pile := pl\<rparr>"
    by (simp add: r'_def)
  moreover have "mset (map card_ident cs) + mset (map card_ident (d @ pl))
            = mset (map card_ident (cards (heap r p))) + mset (map card_ident (deck r @ pile r))"
    using a(2,6) by (metis (no_types, lifting) add.assoc add.commute)
  ultimately have "dealt r p 1 r'"
    unfolding dealt_def using a(1,3,4,5) by (intro exI conjI) (assumption | simp)+
  with g show ?thesis by (auto simp: r'_def)
qed

lemma dealt_rearranged:
  assumes "dealt r p n r'"
    and "length cs' = length (cards (heap r' p))"
    and "mset (map card_ident cs') = mset (map card_ident (cards (heap r' p)))"
  shows "dealt r p n (r'\<lparr>heap := (heap r')(p := (heap r' p)\<lparr>cards := cs', lastDrawnCard := l'\<rparr>),
                        outbox := ob'\<rparr>)"
proof -
  have "dealt r' p 0 (r'\<lparr>heap := (heap r')(p := (heap r' p)\<lparr>cards := cs', lastDrawnCard := l'\<rparr>),
                        outbox := ob'\<rparr>)"
    unfolding dealt_def
    apply (rule exI [of _ cs'], rule exI [of _ l'], rule exI [of _ "deck r'"], rule exI [of _ "pile r'"],
      rule exI [of _ "rnd_pos r'"], rule exI [of _ ob'])
    using assms(2,3) dealt_frame(20) [OF assms(1)] by (simp add: dealable_def)
  from dealt_trans [OF assms(1) this] show ?thesis by simp
qed

lemma giveCard_none_moves:
  assumes t: "turn r = Some t" and ne: "pile r \<noteq> []" and ex: "dealable r = 0"
    and g: "giveCard r p = Inr (given, r')"
  shows "given = None \<and> dealt r p 0 r'"
proof -
  from ex have d: "deck r = []" and l: "length (pile r) - 1 = 0"
    by (simp_all add: dealable_def)
  have e: "deck (refillDeckFromPile r) = []"
    using refill_facts(3) [of r] d l by simp
  have rf: "refillDeckFromPile r = r"
    using d l e by (simp add: refillDeckFromPile_def Let_def shuffleDeck_def)
  have r2: "upd_player p (\<lambda>pl. pl\<lparr>cards := cards pl @ []\<rparr>) (r\<lparr>deck := []\<rparr>) = r"
    using d by (simp add: upd_player_def)
  have top2: "topCard r = Some (last (pile r))"
    using ne by (rule topCard_last)
  from g have res: "given = None \<and> (r' = r \<or> r' = upd_player p (findPlayableCards (last (pile r))) r)"
    using t top2 r2
    by (auto simp: giveCard_def d rf pickCard_def at_index_def Let_def split: if_splits)
  then have "r' = r \<or> r' = upd_player p (findPlayableCards (last (pile r))) r"
    by simp
  then have "dealt r p 0 r'"
  proof
    assume "r' = r"
    then show ?thesis using dealt_refl [OF ne] by simp
  next
    assume r': "r' = upd_player p (findPlayableCards (last (pile r))) r"
    define cs where "cs = cards (findPlayableCards (last (pile r)) (heap r p))"
    have "r' = r\<lparr>heap := (heap r)(p := (heap r p)\<lparr>cards := cs, lastDrawnCard := lastDrawnCard (heap r p)\<rparr>),
                  outbox := outbox r\<rparr>"
      by (simp add: r' upd_player_def cs_def findPlayableCards_cards)
    moreover have "dealt r p 0 (r\<lparr>heap := (heap r)(p := (heap r p)\<lparr>cards := cs, lastDrawnCard := lastDrawnCard (heap r p)\<rparr>),
                  outbox := outbox r\<rparr>)"
      by (rule dealt_rearranged [OF dealt_refl [OF ne]])
         (simp_all add: cs_def findPlayableCards_cards multiset.map_comp comp_def)
    ultimately show ?thesis by simp
  qed
  with res show ?thesis by simp
qed

lemma drawCards_loop_forced:
  assumes "turn r = Some t" and "pile r \<noteq> []" and "\<not> isRoomEmpty r"
    and "0 \<le> i" and "i \<le> amount" and "nat (amount - i) \<le> dealable r"
  shows "\<exists>r'. drawCards_loop nt p amount drawn i r = Inr (Fell_through, r')
              \<and> dealt r p (nat (amount - i)) r'"
  using assms
proof (induction "nat (amount - i)" arbitrary: i r drawn)
  case 0
  then have "i = amount" "amount \<noteq> - 1" by simp_all
  then have "drawCards_loop nt p amount drawn i r = Inr (Fell_through, r)"
    by (subst drawCards_loop.simps) simp
  with 0 show ?case by (simp add: dealt_refl)
next
  case (Suc k)
  from Suc.hyps(2) have lt: "i < amount" and k: "k = nat (amount - (i + 1))"
    by linarith+
  from lt Suc.prems have ne: "amount \<noteq> - 1" "amount \<noteq> i" by simp_all
  from Suc.hyps(2) Suc.prems(6) have "0 < dealable r" by simp
  from dealt_giveCard [OF Suc.prems(1,2) this, of p]
  obtain c r1 where g: "giveCard r p = Inr (Some c, r1)" and d1: "dealt r p 1 r1"
    by blast
  define r3 where "r3 = upd_player p
                     (\<lambda>pl. pl\<lparr>lastDrawnCard := findIndex (\<lambda>x. card_id x = card_id c) (cards pl)\<rparr>)
                     (upd_player p sortCards r1)"
  define l where "l = findIndex (\<lambda>x. card_id x = card_id c) (sort_key sort_rank (cards (heap r1 p)))"
  have r3: "r3 = r1\<lparr>heap := (heap r1)(p := (heap r1 p)\<lparr>cards := sort_key sort_rank (cards (heap r1 p)),
                                                     lastDrawnCard := l\<rparr>)\<rparr>"
    by (simp add: r3_def upd_player_def sortCards_def l_def)
  have t3: "turn r3 = Some t"
    using Suc.prems(1) dealt_frame(1) [OF d1] by (simp add: r3)
  define r4 where "r4 = r3\<lparr>outbox := outbox r3 @ state_msgs r3 t\<rparr>"
  have bc: "broadcastState r3 = Inr r4"
    unfolding r4_def by (rule broadcastState_Some [OF t3])
  have r4: "r4 = r1\<lparr>heap := (heap r1)(p := (heap r1 p)\<lparr>cards := sort_key sort_rank (cards (heap r1 p)),
                                                     lastDrawnCard := l\<rparr>),
                    outbox := outbox r3 @ state_msgs r3 t\<rparr>"
    by (simp add: r4_def r3)
  have d4: "dealt r p 1 r4"
    unfolding r4 by (rule dealt_rearranged [OF d1]) simp_all
  have step: "drawCards_loop nt p amount drawn i r
                = drawCards_loop nt p amount (drawn @ [card_id c]) (i + 1) r4"
    using ne Suc.prems(3)
    by (subst drawCards_loop.simps) (simp add: g Let_def r3_def [symmetric] bc)
  have "\<exists>r'. drawCards_loop nt p amount (drawn @ [card_id c]) (i + 1) r4 = Inr (Fell_through, r')
              \<and> dealt r4 p (nat (amount - (i + 1))) r'"
  proof (rule Suc.hyps(1) [OF k])
    show "turn r4 = Some t" using Suc.prems(1) by (simp add: dealt_frame(1) [OF d4])
    show "pile r4 \<noteq> []" by (rule dealt_frame(20) [OF d4])
    show "\<not> isRoomEmpty r4" using Suc.prems(3) by (simp add: dealt_frame(5) [OF d4])
    show "0 \<le> i + 1" using Suc.prems(4) by simp
    show "i + 1 \<le> amount" using lt by simp
    show "nat (amount - (i + 1)) \<le> dealable r4"
      using dealt_frame(19) [OF d4] Suc.prems(6) Suc.hyps(2) k by linarith
  qed
  then obtain r' where res: "drawCards_loop nt p amount (drawn @ [card_id c]) (i + 1) r4 = Inr (Fell_through, r')"
    and d': "dealt r4 p k r'"
    using k by auto
  from dealt_trans [OF d4 d'] have "dealt r p (nat (amount - i)) r'"
    using Suc.hyps(2) by simp
  with step res show ?case by simp
qed

declare drawCards_loop.simps [simp del]

lemma card_ident_mark:
  "map card_ident (case at_index cs l of None \<Rightarrow> cs | Some c \<Rightarrow> cs[nat l := c\<lparr>playable := True\<rparr>])
     = map card_ident cs"
proof (cases "at_index cs l")
  case None
  then show ?thesis by simp
next
  case (Some c)
  then have "nat l < length cs" "c = cs ! nat l"
    by (auto simp: at_index_def split: if_splits)
  then have "map card_ident (cs[nat l := c\<lparr>playable := True\<rparr>]) = (map card_ident cs)[nat l := map card_ident cs ! nat l]"
    by (simp add: map_update)
  with Some show ?thesis by simp
qed

lemma length_mark:
  "length (case at_index cs l of None \<Rightarrow> cs | Some c \<Rightarrow> cs[nat l := c\<lparr>playable := True\<rparr>]) = length cs"
  by (cases "at_index cs l") simp_all

lemma drawCards_forced:
  assumes t: "turn r = Some t" and ne: "pile r \<noteq> []" and open_room: "\<not> isRoomEmpty r"
    and pos: "0 \<le> amount" and enough: "nat amount \<le> dealable r"
    and idle: "\<not> drawing (heap r p)"
  shows "\<exists>r'. drawCards botPlay r p amount = Inr r' \<and> dealt r p (nat amount) r'"
proof -
  define r2 where "r2 = upd_player p (\<lambda>pl. pl\<lparr>drawing := True\<rparr>) r"
  have r2: "turn r2 = Some t" "pile r2 \<noteq> []" "\<not> isRoomEmpty r2" "dealable r2 = dealable r"
    using t ne open_room by (simp_all add: r2_def upd_player_def dealable_def)
  from pos have a: "amount \<noteq> - 1" "(0::int) \<le> 0" "0 \<le> amount" "nat (amount - 0) = nat amount"
    by simp_all
  from drawCards_loop_forced [OF r2(1,2,3) a(2,3), where p = p and nt = "nextTurn_default botPlay" and drawn = "[]"] enough r2(4) a(4)
  obtain r3 where loop: "drawCards_loop (nextTurn_default botPlay) p amount [] 0 r2 = Inr (Fell_through, r3)"
    and d3: "dealt r2 p (nat amount) r3"
    by auto
  from d3 obtain cs l d pl rp ob where
    r3: "r3 = r2\<lparr>heap := (heap r2)(p := (heap r2 p)\<lparr>cards := cs, lastDrawnCard := l\<rparr>),
               rnd_pos := rp, outbox := ob, deck := d, pile := pl\<rparr>"
    and props: "length cs = length (cards (heap r2 p)) + nat amount"
      "mset (map card_ident cs) + mset (map card_ident (d @ pl))
            = mset (map card_ident (cards (heap r2 p))) + mset (map card_ident (deck r2 @ pile r2))"
      "length d + (length pl - 1) + nat amount = dealable r2" "pl \<noteq> []" "last pl = last (pile r2)"
    unfolding dealt_def by blast
  define cs1 where "cs1 = map (\<lambda>c. c\<lparr>playable := False\<rparr>) cs"
  define cs2 where "cs2 = (case at_index cs1 l of None \<Rightarrow> cs1 | Some c \<Rightarrow> cs1[nat l := c\<lparr>playable := True\<rparr>])"
  define r7 where "r7 = r\<lparr>heap := (heap r)(p := (heap r p)\<lparr>cards := cs2, lastDrawnCard := l\<rparr>),
               rnd_pos := rp, outbox := ob, deck := d, pile := pl\<rparr>"
  have pl_eq: "(heap r p)\<lparr>lastDrawnCard := l, cards := cs', drawing := False\<rparr>
                 = (heap r p)\<lparr>cards := cs', lastDrawnCard := l\<rparr>" for cs'
    using idle by (intro Player.equality) simp_all
  have room_eq: "r\<lparr>rnd_pos := rp, outbox := ob, deck := d, pile := pl, heap := h\<rparr>
                  = r\<lparr>heap := h, rnd_pos := rp, outbox := ob, deck := d, pile := pl\<rparr>" for h
    by (intro Room.equality) simp_all
  have t7: "turn r7 = Some t" using t by (simp add: r7_def)
  have "drawCards botPlay r p amount = broadcastState r7"
    using idle a(1) loop [unfolded r3]
    unfolding r2_def r7_def cs2_def cs1_def
    by (simp add: drawCards_def drawCards_with_def Let_def upd_player_def pl_eq room_eq
          split: option.splits)
  then have res: "drawCards botPlay r p amount = Inr (r7\<lparr>outbox := outbox r7 @ state_msgs r7 t\<rparr>)"
    by (simp add: broadcastState_Some [OF t7])
  have "length cs2 = length cs1"
    unfolding cs2_def by (rule length_mark)
  then have len: "length cs2 = length (cards (heap r p)) + nat amount"
    using props(1) by (simp add: cs1_def r2_def upd_player_def)
  have "map card_ident cs2 = map card_ident cs1"
    unfolding cs2_def by (rule card_ident_mark)
  then have ms: "mset (map card_ident cs2) = mset (map card_ident cs)"
    by (simp add: cs1_def multiset.map_comp comp_def)
  have "dealt r p (nat amount) (r7\<lparr>outbox := outbox r7 @ state_msgs r7 t\<rparr>)"
    unfolding dealt_def
    apply (rule exI [of _ cs2], rule exI [of _ l], rule exI [of _ d], rule exI [of _ pl],
      rule exI [of _ rp], rule exI [of _ "outbox r7 @ state_msgs r7 t"])
    using props len ms by (simp add: r7_def r2_def upd_player_def dealable_def)
  with res show ?thesis by blast
qed

lemma hands_outside:
  "p \<notin> set ps \<Longrightarrow> concat (map (\<lambda>q. cards ((h(p := pl)) q)) ps) = concat (map (\<lambda>q. cards (h q)) ps)"
  by (induction ps) auto

lemma hands_update:
  assumes "distinct ps" and "p \<in> set ps"
  shows "mset (map f (concat (map (\<lambda>q. cards ((h(p := pl)) q)) ps))) + mset (map f (cards (h p)))
           = mset (map f (concat (map (\<lambda>q. cards (h q)) ps))) + mset (map f (cards pl))"
  using assms
proof (induction ps)
  case Nil
  then show ?case by simp
next
  case (Cons q ps)
  show ?case
  proof (cases "q = p")
    case True
    with Cons.prems have "p \<notin> set ps" by simp
    from hands_outside [OF this, of h pl] True show ?thesis by simp
  next
    case False
    with Cons.prems have "distinct ps" "p \<in> set ps" by simp_all
    from Cons.IH [OF this] False show ?thesis by (simp add: add.assoc)
  qed
qed

lemma dealt_all_cards:
  assumes "dealt r p n r'" and "p \<in> set (players r)"
  shows "mset (map card_ident (all_cards r')) = mset (map card_ident (all_cards r))"
proof -
  from assms(1) obtain cs l d pl rp ob where
    r': "r' = r\<lparr>heap := (heap r)(p := (heap r p)\<lparr>cards := cs, lastDrawnCard := l\<rparr>),
               rnd_pos := rp, outbox := ob, deck := d, pile := pl\<rparr>"
    and ms: "mset (map card_ident cs) + mset (map card_ident (d @ pl))
            = mset (map card_ident (cards (heap r p))) + mset (map card_ident (deck r @ pile r))"
    unfolding dealt_def by blast
  define H where "H = mset (map card_ident (concat (map (\<lambda>q. cards (heap r q)) (remdups (players r)))))"
  define H' where "H' = mset (map card_ident (concat (map (\<lambda>q. cards (heap r' q)) (remdups (players r')))))"
  define A where "A = mset (map card_ident cs)"
  define B where "B = mset (map card_ident (d @ pl))"
  define C where "C = mset (map card_ident (cards (heap r p)))"
  define D where "D = mset (map card_ident (deck r @ pile r))"
  have seats: "distinct (remdups (players r))" "p \<in> set (remdups (players r))"
    using assms(2) by simp_all
  have f1: "H' + C = H + A"
    using hands_update [OF seats, of card_ident "heap r" "(heap r p)\<lparr>cards := cs, lastDrawnCard := l\<rparr>"]
    by (simp add: H_def H'_def A_def C_def r')
  have f2: "A + B = C + D"
    using ms by (simp only: A_def B_def C_def D_def)
  have "B + H' + C = B + (H' + C)" by (simp only: add.assoc)
  also have "\<dots> = B + (H + A)" by (simp only: f1)
  also have "\<dots> = H + (A + B)" by (simp only: ac_simps)
  also have "\<dots> = H + (C + D)" by (simp only: f2)
  also have "\<dots> = D + H + C" by (simp only: ac_simps)
  finally have "B + H' = D + H" by (simp only: add_right_cancel)
  moreover have "mset (map card_ident (all_cards r')) = B + H'"
    by (simp add: all_cards_def H'_def B_def r')
  moreover have "mset (map card_ident (all_cards r)) = D + H"
    by (simp add: all_cards_def H_def D_def)
  ultimately show ?thesis by (simp only:)
qed

section \<open>Leaving without replacement\<close>

lemma removePlayer_no_replace:
  assumes t: "turn r = Some t"
    and humans: "1 < length (filter (\<lambda>p. \<not> bot_flag (heap r p)
                                \<and> player_id (heap r p) \<noteq> player_id (heap r player)) (players r))"
    and guest: "player_id (heap r (host r)) \<noteq> player_id (heap r player)"
  shows "\<exists>ob. removePlayer botPlay r player False
           = Some (Inr (upd_player player (\<lambda>pl. pl\<lparr>roomId := [], inRoom := False, cards := []\<rparr>)
                          (r\<lparr>players := filter (\<lambda>p. player_id (heap r p) \<noteq> player_id (heap r player))
                                               (players r),
                             outbox := ob\<rparr>)))"
proof -
  define r2 where "r2 = r\<lparr>players := filter (\<lambda>p. player_id (heap r p) \<noteq> player_id (heap r player))
                                               (players r)\<rparr>"
  have t2: "turn r2 = Some t" using t by (simp add: r2_def)
  have bc: "broadcastState r2 = Inr (r2\<lparr>outbox := outbox r2 @ state_msgs r2 t\<rparr>)"
    by (rule broadcastState_Some [OF t2])
  have ne: "length (filter (\<lambda>p. \<not> bot_flag (heap r p)
                                \<and> player_id (heap r p) \<noteq> player_id (heap r player)) (players r)) \<noteq> 0"
    "length (filter (\<lambda>p. \<not> bot_flag (heap r p)
                                \<and> player_id (heap r p) \<noteq> player_id (heap r player)) (players r)) \<noteq> 1"
    using humans by linarith+
  have "removePlayer botPlay r player False
          = Some (Inr (upd_player player (\<lambda>pl. pl\<lparr>roomId := [], inRoom := False, cards := []\<rparr>)
                          (r2\<lparr>outbox := outbox r2 @ state_msgs r2 t\<rparr>)))"
    apply (subst removePlayer.simps)
    unfolding Let_def
    apply (simp only: ne guest if_False simp_thms r2_def [symmetric] bc sum.case)
    done
  then show ?thesis
    unfolding r2_def by (intro exI [of _ "outbox r2 @ state_msgs r2 t"]) (simp add: r2_def)
qed

section \<open>Advancing the turn\<close>

lemma nextTurn_with_tail:
  "nextTurn_with dc botPlay r skip draw =
     (case turn r of
        None \<Rightarrow> Inl TypeError
      | Some t \<Rightarrow>
          (case (if skip \<or> draw \<noteq> 0
                 then (case getNextPlayer
                              (upd_player t (\<lambda>pl. (clearPlayableCards pl)\<lparr>canDraw := False, canPlay := False\<rparr>)
                                 (r\<lparr>inactivityTimer := 0\<rparr>)) 0 of
                         Inl e \<Rightarrow> Inl e
                       | Inr None \<Rightarrow> Inl TypeError
                       | Inr (Some q) \<Rightarrow>
                           (case broadcastState
                                   (upd_player q (\<lambda>pl. pl\<lparr>canDraw := False, canPlay := False\<rparr>)
                                      ((upd_player t (\<lambda>pl. (clearPlayableCards pl)\<lparr>canDraw := False, canPlay := False\<rparr>)
                                          (r\<lparr>inactivityTimer := 0\<rparr>))\<lparr>turn := Some q\<rparr>)) of
                              Inl e \<Rightarrow> Inl e
                            | Inr r4 \<Rightarrow> if draw \<noteq> 0 then dc r4 q draw else Inr r4))
                 else Inr (upd_player t (\<lambda>pl. (clearPlayableCards pl)\<lparr>canDraw := False, canPlay := False\<rparr>)
                             (r\<lparr>inactivityTimer := 0\<rparr>))) of
             Inl e \<Rightarrow> Inl e
           | Inr r5 \<Rightarrow> hand_over botPlay r5))"
  unfolding nextTurn_with_def hand_over_def turn_given_def Let_def
  by (simp add: upd_player_def cong: option.case_cong sum.case_cong if_cong)

lemma hand_over_to:
  assumes nx: "getNextPlayer r 0 = Inr (Some n)" and ne: "pile r \<noteq> []"
  shows "\<exists>r' cs W ob.
           hand_over botPlay r = (if winner r' = None \<and> bot_flag (heap r' n) then botPlay n r' else Inr r')
           \<and> r' = r\<lparr>heap := (heap r)(n := (heap r n)\<lparr>canDraw := True, canPlay := True, cards := cs\<rparr>),
                    outbox := ob, turn := Some n, winner := W\<rparr>
           \<and> map card_ident cs = map card_ident (cards (heap r n))"
proof -
  define r6 where "r6 = upd_player n (\<lambda>pl. pl\<lparr>canDraw := True, canPlay := True\<rparr>) (r\<lparr>turn := Some n\<rparr>)"
  define tc where "tc = last (pile r)"
  have top6: "topCard r6 = Some tc"
    using ne by (simp add: r6_def tc_def upd_player_def topCard_last)
  define cs where "cs = cards (findPlayableCards tc (heap r6 n))"
  define r7 where "r7 = upd_player n (findPlayableCards tc) r6"
  define W where "W = (case filter (\<lambda>p. cards (heap r7 p) = []) (players r7) of
                         [] \<Rightarrow> winner r7 | q # qs \<Rightarrow> Some (last (q # qs)))"
  have tg: "turn_given r n tc = r7\<lparr>winner := W\<rparr>"
    unfolding turn_given_def r6_def [symmetric] r7_def [symmetric] W_def
    by (rule checkForWinner_eq)
  define r9 where "r9 = (r7\<lparr>winner := W\<rparr>)\<lparr>outbox := outbox r7 @ state_msgs (r7\<lparr>winner := W\<rparr>) n\<rparr>"
  have "turn (r7\<lparr>winner := W\<rparr>) = Some n"
    by (simp add: r7_def r6_def upd_player_def)
  from broadcastState_Some [OF this] have bc: "broadcastState (turn_given r n tc) = Inr r9"
    by (simp add: tg r9_def)
  have res: "hand_over botPlay r = (if winner r9 = None \<and> bot_flag (heap r9 n) then botPlay n r9 else Inr r9)"
    unfolding hand_over_def
    by (simp only: nx sum.case option.case r6_def [symmetric] top6 bc) simp
  have cs: "map card_ident cs = map card_ident (cards (heap r n))"
    by (simp add: cs_def r6_def upd_player_def findPlayableCards_cards)
  have shape: "r9 = r\<lparr>heap := (heap r)(n := (heap r n)\<lparr>canDraw := True, canPlay := True, cards := cs\<rparr>),
                    outbox := outbox r9, turn := Some n, winner := W\<rparr>"
    by (intro Room.equality)
       (simp_all add: r9_def r7_def r6_def cs_def upd_player_def findPlayableCards_cards)
  from res shape cs show ?thesis by blast
qed

lemma card_ident_clearPlayableCards [simp]:
  "map card_ident (cards (clearPlayableCards pl)) = map card_ident (cards pl)"
  by (simp add: clearPlayableCards_def)

lemma nextTurn_plain:
  assumes t: "turn r = Some t" and nx: "getNextPlayer r 0 = Inr (Some n)" and ne: "pile r \<noteq> []"
  shows "\<exists>r'. nextTurn botPlay r False 0
                 = (if winner r' = None \<and> bot_flag (heap r' n) then botPlay n r' else Inr r')
              \<and> turn r' = Some n \<and> stack r' = stack r \<and> players r' = players r
              \<and> deck r' = deck r \<and> pile r' = pile r
              \<and> canPlay (heap r' n) \<and> canDraw (heap r' n)
              \<and> (\<forall>x. mustStack (heap r' x) = mustStack (heap r x))
              \<and> (\<forall>x. bot_flag (heap r' x) = bot_flag (heap r x))
              \<and> (\<forall>x. map card_ident (cards (heap r' x)) = map card_ident (cards (heap r x)))"
proof -
  define r2 where "r2 = upd_player t (\<lambda>pl. (clearPlayableCards pl)\<lparr>canDraw := False, canPlay := False\<rparr>)
                          (r\<lparr>inactivityTimer := 0\<rparr>)"
  have "getNextPlayer r2 0 = getNextPlayer r 0"
    by (rule getNextPlayer_cong) (simp_all add: r2_def upd_player_def clearPlayableCards_def)
  with nx have nx2: "getNextPlayer r2 0 = Inr (Some n)" by simp
  have ne2: "pile r2 \<noteq> []" using ne by (simp add: r2_def upd_player_def)
  from hand_over_to [OF nx2 ne2, of botPlay] obtain r' cs W ob where
    res: "hand_over botPlay r2 = (if winner r' = None \<and> bot_flag (heap r' n) then botPlay n r' else Inr r')"
    and r': "r' = r2\<lparr>heap := (heap r2)(n := (heap r2 n)\<lparr>canDraw := True, canPlay := True, cards := cs\<rparr>),
                    outbox := ob, turn := Some n, winner := W\<rparr>"
    and cs: "map card_ident cs = map card_ident (cards (heap r2 n))"
    by blast
  have "nextTurn botPlay r False 0 = hand_over botPlay r2"
    unfolding nextTurn_def nextTurn_with_tail r2_def using t by simp
  with res have 1: "nextTurn botPlay r False 0
                 = (if winner r' = None \<and> bot_flag (heap r' n) then botPlay n r' else Inr r')"
    by simp
  have 2: "turn r' = Some n" "stack r' = stack r" "players r' = players r" "deck r' = deck r"
    "pile r' = pile r" "canPlay (heap r' n)" "canDraw (heap r' n)"
    by (simp_all add: r' r2_def upd_player_def)
  have 3: "mustStack (heap r' x) = mustStack (heap r x)" "bot_flag (heap r' x) = bot_flag (heap r x)" for x
    by (cases "x = n"; cases "x = t"; simp add: r' r2_def upd_player_def clearPlayableCards_def)+
  have 4: "map card_ident (cards (heap r' x)) = map card_ident (cards (heap r x))" for x
    using cs by (cases "x = n"; cases "x = t"; simp add: r' r2_def upd_player_def)
  from 1 2 3 4 show ?thesis by blast
qed

lemma nextTurn_skip_draw:
  assumes t: "turn r = Some t" and nq: "getNextPlayer r 0 = Inr (Some q)"
    and ns: "getNextPlayer (r\<lparr>turn := Some q\<rparr>) 0 = Inr (Some s)"
    and ne: "pile r \<noteq> []" and open_room: "\<not> isRoomEmpty r"
    and pos: "0 < draw" and enough: "nat draw \<le> dealable r" and idle: "\<not> drawing (heap r q)"
  shows "\<exists>r'. nextTurn botPlay r True draw
                 = (if winner r' = None \<and> bot_flag (heap r' s) then botPlay s r' else Inr r')
              \<and> turn r' = Some s \<and> stack r' = stack r \<and> players r' = players r
              \<and> canPlay (heap r' s) \<and> canDraw (heap r' s)
              \<and> (\<forall>x. mustStack (heap r' x) = mustStack (heap r x))
              \<and> (\<forall>x. bot_flag (heap r' x) = bot_flag (heap r x))
              \<and> length (cards (heap r' q)) = length (cards (heap r q)) + nat draw
              \<and> (\<forall>x. x \<noteq> q \<longrightarrow> map card_ident (cards (heap r' x)) = map card_ident (cards (heap r x)))"
proof -
  define r2 where "r2 = upd_player t (\<lambda>pl. (clearPlayableCards pl)\<lparr>canDraw := False, canPlay := False\<rparr>)
                          (r\<lparr>inactivityTimer := 0\<rparr>)"
  have "getNextPlayer r2 0 = getNextPlayer r 0"
    by (rule getNextPlayer_cong) (simp_all add: r2_def upd_player_def clearPlayableCards_def)
  with nq have nq2: "getNextPlayer r2 0 = Inr (Some q)" by simp
  define r3 where "r3 = upd_player q (\<lambda>pl. pl\<lparr>canDraw := False, canPlay := False\<rparr>) (r2\<lparr>turn := Some q\<rparr>)"
  have t3: "turn r3 = Some q" by (simp add: r3_def upd_player_def)
  define r4 where "r4 = r3\<lparr>outbox := outbox r3 @ state_msgs r3 q\<rparr>"
  have bc: "broadcastState r3 = Inr r4"
    unfolding r4_def by (rule broadcastState_Some [OF t3])
  have r4: "turn r4 = Some q" "pile r4 \<noteq> []" "\<not> isRoomEmpty r4" "dealable r4 = dealable r"
    "players r4 = players r" "directionReversed r4 = directionReversed r" "stack r4 = stack r"
    using ne open_room by (simp_all add: r4_def r3_def r2_def upd_player_def dealable_def)
  have h4: "player_id (heap r4 x) = player_id (heap r x)" "mustStack (heap r4 x) = mustStack (heap r x)"
    "bot_flag (heap r4 x) = bot_flag (heap r x)" "drawing (heap r4 x) = drawing (heap r x)"
    "map card_ident (cards (heap r4 x)) = map card_ident (cards (heap r x))" for x
    by (cases "x = q"; cases "x = t"; simp add: r4_def r3_def r2_def upd_player_def clearPlayableCards_def)+
  have idle4: "\<not> drawing (heap r4 q)" using idle by (simp add: h4)
  from pos have pos': "0 \<le> draw" "draw \<noteq> 0" by simp_all
  from enough have enough4: "nat draw \<le> dealable r4" by (simp add: r4)
  from drawCards_forced [OF r4(1,2,3) pos'(1) enough4 idle4, of botPlay]
  obtain r5 where dc: "drawCards botPlay r4 q draw = Inr r5" and d5: "dealt r4 q (nat draw) r5"
    by blast
  have "getNextPlayer r5 0 = getNextPlayer (r\<lparr>turn := Some q\<rparr>) 0"
    by (rule getNextPlayer_cong) (simp_all add: dealt_frame [OF d5] r4 h4)
  with ns have ns5: "getNextPlayer r5 0 = Inr (Some s)" by simp
  have ne5: "pile r5 \<noteq> []" by (rule dealt_frame(20) [OF d5])
  from hand_over_to [OF ns5 ne5, of botPlay] obtain r' cs W ob where
    res: "hand_over botPlay r5 = (if winner r' = None \<and> bot_flag (heap r' s) then botPlay s r' else Inr r')"
    and r': "r' = r5\<lparr>heap := (heap r5)(s := (heap r5 s)\<lparr>canDraw := True, canPlay := True, cards := cs\<rparr>),
                    outbox := ob, turn := Some s, winner := W\<rparr>"
    and cs: "map card_ident cs = map card_ident (cards (heap r5 s))"
    by blast
  have "nextTurn botPlay r True draw = hand_over botPlay r5"
    unfolding nextTurn_def nextTurn_with_tail
    using t pos'(2) by (simp add: r2_def [symmetric] nq2 r3_def [symmetric] bc dc)
  with res have 1: "nextTurn botPlay r True draw
                 = (if winner r' = None \<and> bot_flag (heap r' s) then botPlay s r' else Inr r')"
    by simp
  have 2: "turn r' = Some s" "stack r' = stack r" "players r' = players r"
    "canPlay (heap r' s)" "canDraw (heap r' s)"
    by (simp_all add: r' dealt_frame [OF d5] r4)
  have 3: "mustStack (heap r' x) = mustStack (heap r x)" "bot_flag (heap r' x) = bot_flag (heap r x)" for x
    by (cases "x = s"; simp add: r' dealt_frame [OF d5] h4)+
  from cs have lcs: "length cs = length (cards (heap r5 s))"
    by (metis length_map)
  have "length (cards (heap r' q)) = length (cards (heap r5 q))"
    using lcs by (cases "q = s"; simp add: r')
  also have "\<dots> = length (cards (heap r4 q)) + nat draw"
    by (rule dealt_frame(18) [OF d5])
  also have "length (cards (heap r4 q)) = length (cards (heap r q))"
    using h4(5) [of q] by (metis length_map)
  finally have 4: "length (cards (heap r' q)) = length (cards (heap r q)) + nat draw" .
  have 5: "map card_ident (cards (heap r' x)) = map card_ident (cards (heap r x))" if "x \<noteq> q" for x
  proof -
    from that have "heap r5 x = heap r4 x" by (rule dealt_frame(10) [OF d5])
    with cs h4(5) [of x] show ?thesis
      by (cases "x = s"; simp add: r')
  qed
  from 1 2 3 4 5 show ?thesis by blast
qed

section \<open>Playing a card\<close>

lemma playCard_accepted:
  assumes "turn r = Some p" and "canPlay (heap r p)"
    and "at_index (cards (heap r p)) idx = Some c" and "playable c"
  shows "playCard botPlay r p idx =
           (case getNextPlayer (card_laid r p idx c) 0 of
              Inl e \<Rightarrow> Inl e
            | Inr nextPlayer \<Rightarrow>
                (case playCard_switch (card_laid r p idx c) c nextPlayer of
                   Inl e \<Rightarrow> Inl e
                 | Inr (draw, r4) \<Rightarrow>
                     (case (if length (cards (heap r4 p)) = 1 \<and> \<not> hasCalledUno (heap r4 p)
                            then drawCards botPlay r4 p 2 else Inr r4) of
                        Inl e \<Rightarrow> Inl e
                      | Inr r5 \<Rightarrow>
                          (let r6 = upd_player p (\<lambda>pl. pl\<lparr>hasCalledUno := False\<rparr>) r5
                           in if ((ctype c = Plus2 \<or> ctype c = Plus4)
                                   \<and> (case nextPlayer of
                                         None \<Rightarrow> True
                                       | Some np \<Rightarrow> \<not> mustStack (heap r6 np)))
                                 \<or> ctype c = Skip
                              then nextTurn botPlay r6 True draw
                              else nextTurn botPlay r6 False 0))))"
  unfolding playCard_def card_laid_def Let_def
  using assms by (simp add: upd_player_def cong: sum.case_cong option.case_cong if_cong)

lemma card_laid_frame:
  "turn (card_laid r p idx c) = turn r" "players (card_laid r p idx c) = players r"
  "directionReversed (card_laid r p idx c) = directionReversed r"
  "stack (card_laid r p idx c) = stack r" "isRoomEmpty (card_laid r p idx c) = isRoomEmpty r"
  "pile (card_laid r p idx c) = pile r @ [c]" "deck (card_laid r p idx c) = deck r"
  "x \<noteq> p \<Longrightarrow> heap (card_laid r p idx c) x = heap r x"
  "player_id (heap (card_laid r p idx c) x) = player_id (heap r x)"
  "mustStack (heap (card_laid r p idx c) x) = mustStack (heap r x)"
  "drawing (heap (card_laid r p idx c) x) = drawing (heap r x)"
  "dealable (card_laid r p idx c) = length (deck r) + length (pile r)"
  by (simp_all add: card_laid_def upd_player_def dealable_def)

lemma uno_penalty:
  assumes "turn r = Some t" and "pile r \<noteq> []" and "\<not> isRoomEmpty r" and "2 \<le> dealable r"
  shows "\<exists>n r'. (if length (cards (heap r p)) = 1 \<and> \<not> hasCalledUno (heap r p)
                  then drawCards botPlay r p 2 else Inr r) = Inr r'
                \<and> dealt r p n r' \<and> n \<le> 2"
proof (cases "length (cards (heap r p)) = 1 \<and> \<not> hasCalledUno (heap r p) \<and> \<not> drawing (heap r p)")
  case True
  from assms(4) have "nat 2 \<le> dealable r" by simp
  from drawCards_forced [OF assms(1,2,3) _ this, of p botPlay] True
  obtain r' where "drawCards botPlay r p 2 = Inr r'" "dealt r p (nat 2) r'"
    by auto
  with True show ?thesis by (intro exI [of _ 2] exI [of _ r']) simp
next
  case False
  then have "(if length (cards (heap r p)) = 1 \<and> \<not> hasCalledUno (heap r p)
                  then drawCards botPlay r p 2 else Inr r) = Inr r"
    by (auto simp: drawCards_def drawCards_with_def)
  with dealt_refl [OF assms(2), of p] show ?thesis
    by (intro exI [of _ 0] exI [of _ r]) simp
qed

lemma playCard_plus2_stacked:
  assumes t: "turn r = Some p" and can: "canPlay (heap r p)"
    and c: "at_index (cards (heap r p)) idx = Some c" and ok: "playable c" and plus2: "ctype c = Plus2"
    and nq: "getNextPlayer r 0 = Inr (Some q)" and other: "q \<noteq> p"
    and some: "\<exists>x \<in> set (cards (heap r q)). ctype x = Plus2"
    and open_room: "\<not> isRoomEmpty r"
    and enough: "2 \<le> length (deck r) + length (pile r)"
  shows "\<exists>r'. playCard botPlay r p idx
                 = (if winner r' = None \<and> bot_flag (heap r' q) then botPlay q r' else Inr r')
              \<and> stack r' = stack r + 2
              \<and> mustStack (heap r' q)
              \<and> map card_ident (cards (heap r' q)) = map card_ident (cards (heap r q))
              \<and> turn r' = Some q \<and> canPlay (heap r' q) \<and> canDraw (heap r' q)
              \<and> bot_flag (heap r' q) = bot_flag (heap r q)"
proof -
  define r3 where "r3 = card_laid r p idx c"
  note f3 = card_laid_frame [where r = r and p = p and idx = idx and c = c, folded r3_def]
  have nq3: "getNextPlayer r3 0 = Inr (Some q)"
    using nq getNextPlayer_cong [of r3 r 0] by (simp add: f3)
  define r4 where "r4 = (upd_player q (\<lambda>pl. pl\<lparr>mustStack := True\<rparr>) r3)\<lparr>stack := stack r3 + 2\<rparr>"
  have "findIndex (\<lambda>x. ctype x = Plus2) (cards (heap r3 q)) \<noteq> - 1"
    using some other by (simp add: findIndex_none f3)
  then have sw: "playCard_switch r3 c (Some q) = Inr (0, r4)"
    by (simp add: playCard_switch_def plus2 r4_def)
  have f4: "turn r4 = Some p" "pile r4 \<noteq> []" "\<not> isRoomEmpty r4" "players r4 = players r"
    "directionReversed r4 = directionReversed r" "stack r4 = stack r + 2"
    "dealable r4 = length (deck r) + length (pile r)"
    using t open_room f3(12) by (simp_all add: r4_def upd_player_def f3 dealable_def)
  have h4: "player_id (heap r4 x) = player_id (heap r x)" for x
    by (simp add: r4_def upd_player_def f3)
  have q4: "mustStack (heap r4 q)" "cards (heap r4 q) = cards (heap r q)"
    "bot_flag (heap r4 q) = bot_flag (heap r q)"
    using other by (simp_all add: r4_def upd_player_def f3)
  from enough f4(7) have "2 \<le> dealable r4" by simp
  from uno_penalty [OF f4(1,2,3) this, of p botPlay] obtain n r5 where
    pen: "(if length (cards (heap r4 p)) = 1 \<and> \<not> hasCalledUno (heap r4 p)
           then drawCards botPlay r4 p 2 else Inr r4) = Inr r5"
    and d5: "dealt r4 p n r5"
    by blast
  note f5 = dealt_frame [OF d5]
  define r6 where "r6 = upd_player p (\<lambda>pl. pl\<lparr>hasCalledUno := False\<rparr>) r5"
  have f6: "turn r6 = Some p" "pile r6 \<noteq> []" "stack r6 = stack r + 2"
    using f4 by (simp_all add: r6_def upd_player_def f5)
  have q6: "mustStack (heap r6 q)" "cards (heap r6 q) = cards (heap r q)"
    "bot_flag (heap r6 q) = bot_flag (heap r q)"
    using other q4 f5(10) [of q] by (simp_all add: r6_def upd_player_def)
  have "getNextPlayer r6 0 = getNextPlayer r 0"
    using t by (intro getNextPlayer_cong) (simp_all add: r6_def upd_player_def f5 f4 h4)
  with nq have nq6: "getNextPlayer r6 0 = Inr (Some q)" by simp
  from nextTurn_plain [OF f6(1) nq6 f6(2), of botPlay]
  obtain r' where
    res: "nextTurn botPlay r6 False 0
            = (if winner r' = None \<and> bot_flag (heap r' q) then botPlay q r' else Inr r')"
    and a: "turn r' = Some q" "stack r' = stack r6" "canPlay (heap r' q)" "canDraw (heap r' q)"
      "\<forall>x. mustStack (heap r' x) = mustStack (heap r6 x)"
      "\<forall>x. bot_flag (heap r' x) = bot_flag (heap r6 x)"
      "\<forall>x. map card_ident (cards (heap r' x)) = map card_ident (cards (heap r6 x))"
    by blast
  have "playCard botPlay r p idx = nextTurn botPlay r6 False 0"
    unfolding playCard_accepted [OF t can c ok] r3_def [symmetric]
    by (simp only: nq3 sw pen sum.case prod.case option.case Let_def r6_def [symmetric]
          plus2 q6(1) simp_thms CardType.distinct if_False)
  with res have 1: "playCard botPlay r p idx
                 = (if winner r' = None \<and> bot_flag (heap r' q) then botPlay q r' else Inr r')"
    by simp
  have 2: "stack r' = stack r + 2" using a(2) f6(3) by simp
  have 3: "mustStack (heap r' q)" using a(5) q6(1) by simp
  have 4: "map card_ident (cards (heap r' q)) = map card_ident (cards (heap r q))"
    using a(7) q6(2) by simp
  have 5: "bot_flag (heap r' q) = bot_flag (heap r q)" using a(6) q6(3) by simp
  from 1 2 3 4 5 a(1,3,4) show ?thesis by blast
qed

section \<open>The tables of the concrete runs\<close>

lemma table_seats:
  "players (table hand pending seats) = seats" "turn (table hand pending seats) = Some 0"
  "directionReversed (table hand pending seats) = False"
  "player_id (heap (table hand pending seats) 0) = 10"
  "player_id (heap (table hand pending seats) 1) = 11"
  "player_id (heap (table hand pending seats) (Suc 0)) = 11"
  "player_id (heap (table hand pending seats) 2) = 12"
  by (simp_all add: table_def alice_def bob_def carol_def new_Player_def)

lemma table_turn: "(table hand pending seats)\<lparr>turn := Some 0\<rparr> = table hand pending seats"
  by (simp add: table_def)

lemma getNextPlayer_table:
  "getNextPlayer (table hand pending seats\<lparr>turn := Some q\<rparr>) 0
     = Inr (at_index seats
              (let j = findIndex (\<lambda>p. player_id (heap (table hand pending seats) p)
                                        = player_id (heap (table hand pending seats) q)) seats + 1
               in if j > int (length seats) - 1 then j - int (length seats) else j))"
  by (simp add: getNextPlayer_def table_seats Let_def)

lemma table_piles:
  "pile (table hand pending seats) \<noteq> []" "length (pile (table hand pending seats)) = 1"
  "length (deck (table hand pending seats)) = 4" "dealable (table hand pending seats) = 4"
  "\<not> isRoomEmpty (table hand pending seats)" "started (table hand pending seats)"
  "stack (table hand pending seats) = pending"
  by (simp_all add: table_def dealable_def)

lemma table_bob:
  "cards (heap (table hand pending seats) (Suc 0)) = hand"
  "\<not> drawing (heap (table hand pending seats) (Suc 0))"
  "\<not> bot_flag (heap (table hand pending seats) (Suc 0))"
  "\<not> mustStack (heap (table hand pending seats) (Suc 0))"
  by (simp_all add: table_def bob_def new_Player_def)

lemma table_alice:
  "canPlay (heap (table hand pending seats) 0)" "\<not> bot_flag (heap (table hand pending seats) 0)"
  "at_index (cards (heap (table hand pending seats) 0)) 0 = Some ((new_Card 1 0 Red Plus2)\<lparr>playable := True\<rparr>)"
  "playable ((new_Card 1 0 Red Plus2)\<lparr>playable := True\<rparr>)"
  "ctype ((new_Card 1 0 Red Plus2)\<lparr>playable := True\<rparr>) = Plus2"
  by (simp_all add: table_def alice_def new_Player_def new_Card_def at_index_def)

lemma table_for_two:
  "getNextPlayer (table hand pending [0, 1]) 0 = Inr (Some 1)"
  "getNextPlayer (table hand pending [0, 1]\<lparr>turn := Some 1\<rparr>) 0 = Inr (Some 0)"
proof -
  show "getNextPlayer (table hand pending [0, 1]) 0 = Inr (Some 1)"
    using getNextPlayer_table [where hand = hand and pending = pending and seats = "[0, 1]" and q = 0]
    by (simp add: table_turn table_seats at_index_def)
  show "getNextPlayer (table hand pending [0, 1]\<lparr>turn := Some 1\<rparr>) 0 = Inr (Some 0)"
    using getNextPlayer_table [where hand = hand and pending = pending and seats = "[0, 1]" and q = 1]
    by (simp add: table_seats at_index_def)
qed

lemma bare_table_facts:
  "turn bare_table = Some 0" "pile bare_table \<noteq> []" "players bare_table = [0, 1]"
  "dealable bare_table = 0" "length (deck bare_table) + length (pile bare_table) = 1"
  by (simp_all add: bare_table_def table_def dealable_def)

lemma bob_to_move_facts:
  "turn bob_to_move = Some 1" "players bob_to_move = [0, 1, 2]" "host bob_to_move = 0"
  "player_id (heap bob_to_move 0) = 10" "player_id (heap bob_to_move (Suc 0)) = 11"
  "player_id (heap bob_to_move 2) = 12"
  "\<not> bot_flag (heap bob_to_move 0)" "\<not> bot_flag (heap bob_to_move (Suc 0))"
  "\<not> bot_flag (heap bob_to_move 2)"
  by (simp_all add: bob_to_move_def table_def alice_def bob_def carol_def new_Player_def)

lemma both_out_empty_hands: "filter (\<lambda>p. cards (heap both_out p) = []) (players both_out) = [0, 1]"
  by (simp add: both_out_def table_def upd_player_def bob_def new_Player_def)

lemma full_table_round_trip: "World.extend (World.truncate full_table) (World.more full_table) = full_table"
  unfolding World.extend_def World.truncate_def
  by (simp, rule World.surjective [symmetric])

lemma stacking_table_play:
  "\<exists>r'. playCard idle_bot stacking_table 0 0 = Inr r' \<and> stack r' = 2 \<and> mustStack (heap r' 1)
        \<and> length (cards (heap r' 1)) = 1 \<and> turn r' = Some 1"
proof -
  have h1: "turn stacking_table = Some 0"
    unfolding stacking_table_def by (rule table_seats(2))
  have h2: "canPlay (heap stacking_table 0)"
    unfolding stacking_table_def by (rule table_alice(1))
  have h3: "at_index (cards (heap stacking_table 0)) 0 = Some ((new_Card 1 0 Red Plus2)\<lparr>playable := True\<rparr>)"
    unfolding stacking_table_def by (rule table_alice(3))
  note h4 = table_alice(4) and h5 = table_alice(5)
  have h6: "getNextPlayer stacking_table 0 = Inr (Some 1)"
    unfolding stacking_table_def by (rule table_for_two(1))
  have h7: "(1::ref) \<noteq> 0" by simp
  have hand: "cards (heap stacking_table 1) = [new_Card 5 0 Blue Plus2]"
    unfolding stacking_table_def by (simp add: table_bob)
  have h8: "\<exists>x \<in> set (cards (heap stacking_table 1)). ctype x = Plus2"
    unfolding hand by (simp add: new_Card_def)
  have h9: "\<not> isRoomEmpty stacking_table"
    and h10: "2 \<le> length (deck stacking_table) + length (pile stacking_table)"
    and st: "stack stacking_table = 0"
    unfolding stacking_table_def by (simp_all add: table_piles)
  have nb: "\<not> bot_flag (heap stacking_table 1)"
    unfolding stacking_table_def by (simp add: table_bob)
  from playCard_plus2_stacked [OF h1 h2 h3 h4 h5 h6 h7 h8 h9 h10, of idle_bot] obtain r' where
    res: "playCard idle_bot stacking_table 0 0
       = (if winner r' = None \<and> bot_flag (heap r' 1) then idle_bot 1 r' else Inr r')"
    and a: "stack r' = stack stacking_table + 2" "mustStack (heap r' 1)"
      "map card_ident (cards (heap r' 1)) = map card_ident (cards (heap stacking_table 1))"
      "turn r' = Some 1"
    by blast
  have 1: "playCard idle_bot stacking_table 0 0 = Inr r'"
    unfolding res by (simp add: idle_bot_def)
  have 2: "stack r' = 2" using a(1) st by simp
  have "length (map card_ident (cards (heap r' 1))) = length (map card_ident [new_Card 5 0 Blue Plus2])"
    unfolding a(3) hand ..
  then have 3: "length (cards (heap r' 1)) = 1" by simp
  from 1 2 3 a(2,4) show ?thesis by blast
qed

section \<open>Rejected plays\<close>

text \<open>
  Claim C6: \<^verbatim>\<open>playCard(player, cardIndex)\<close> is a no-op, with no error, whenever a
  precondition fails: the caller is not the turn player, \<^verbatim>\<open>canPlay\<close> is false, the
  indexed card does not exist in the hand, or the indexed card is not marked playable.
  The result is the unchanged room (player objects and outbox included). The room has a
  turn player \<open>t\<close>, as the claim presupposes.
\<close>

theorem playCard_rejected_is_noop:
  assumes "turn r = Some t"
    and "\<not> canPlay (heap r player)
         \<or> player_id (heap r t) \<noteq> player_id (heap r player)
         \<or> at_index (cards (heap r player)) cardIndex = None
         \<or> (\<exists>c. at_index (cards (heap r player)) cardIndex = Some c \<and> \<not> playable c)"
  shows "playCard botPlay r player cardIndex = Inr r"
  using assms by (auto simp: playCard_def split: option.splits)

text \<open>Bob tries to play while it is alice's turn.\<close>

theorem playCard_rejected_is_noop_witness:
  "turn (table [] 0 [0, 1]) = Some 0
   \<and> player_id (heap (table [] 0 [0, 1]) 0) \<noteq> player_id (heap (table [] 0 [0, 1]) 1)
   \<and> playCard idle_bot (table [] 0 [0, 1]) 1 0 = Inr (table [] 0 [0, 1])"
proof -
  have t: "turn (table [] 0 [0, 1]) = Some 0"
    by (simp add: table_def)
  have ids: "player_id (heap (table [] 0 [0, 1]) 0) \<noteq> player_id (heap (table [] 0 [0, 1]) 1)"
    by (simp add: table_def alice_def bob_def new_Player_def)
  from playCard_rejected_is_noop [OF t, of 1 0 idle_bot] ids t show ?thesis
    by blast
qed

section \<open>The winner\<close>

text \<open>
  Claim C2, as amended: for every room in which at least one seated player has an empty
  hand, \<^verbatim>\<open>checkForWinner\<close> sets the room's winner to the last such player in seating
  order (the greatest index in the players list whose hand is empty), and changes
  nothing else. The \<^verbatim>\<open>forEach\<close> does not stop at the first match, so a later seat with an
  empty hand overwrites an earlier one.
\<close>

theorem checkForWinner_last_empty_hand:
  assumes "filter (\<lambda>p. cards (heap r p) = []) (players r) \<noteq> []"
  shows "checkForWinner r
           = r\<lparr>winner := Some (last (filter (\<lambda>p. cards (heap r p) = []) (players r)))\<rparr>"
  using assms by (simp add: checkForWinner_eq split: list.splits)

theorem checkForWinner_last_empty_hand_witness:
  "filter (\<lambda>p. cards (heap both_out p) = []) (players both_out) \<noteq> []
   \<and> checkForWinner both_out = both_out\<lparr>winner := Some 1\<rparr>"
proof -
  have ne: "filter (\<lambda>p. cards (heap both_out p) = []) (players both_out) \<noteq> []"
    by (simp add: both_out_empty_hands)
  from checkForWinner_last_empty_hand [OF ne] ne show ?thesis
    by (simp add: both_out_empty_hands)
qed

text \<open>
  Claim C2 as stated fails: with alice (seat 0) and bob (seat 1) both out of cards, the
  first seat with an empty hand is alice's, but the winner is set to bob.
\<close>

theorem checkForWinner_first_counterexample:
  "hd (filter (\<lambda>p. cards (heap both_out p) = []) (players both_out)) = 0
   \<and> winner (checkForWinner both_out) = Some 1"
  by (simp add: checkForWinner_eq both_out_empty_hands)

section \<open>Joining a room\<close>

text \<open>
  Claim C10: \<^verbatim>\<open>Room.addPlayer\<close> itself enforces no precondition. For every room (one
  that already seats four players or whose game has started included) it appends the
  player to the seating list, marks the player in-room with the room's id, and
  broadcasts: the outbox grows by the states computed from the room with the new seat.
  The capacity and pre-start restrictions sit in the gateway's join-room handler, which
  leaves the server as it is when the room found has four players or has started.
  \<^verbatim>\<open>addPlayer\<close> is stated for a room with a turn player, which every constructed room
  has; without one the broadcast throws.
\<close>

theorem addPlayer_enforces_nothing:
  assumes "turn r = Some t"
    and "rooms s code = Some room_fields"
    and "length (players (World.extend (world s) room_fields)) = 4
         \<or> started (World.extend (world s) room_fields)"
  shows "(\<exists>r'. addPlayer r player = Inr r'
            \<and> players r' = players r @ [player]
            \<and> inRoom (heap r' player)
            \<and> roomId (heap r' player) = room_id r
            \<and> outbox r' = outbox r @ state_msgs r' t)
         \<and> join_room s player' code name = Inr s"
proof
  define r2 where "r2 = (upd_player player (\<lambda>pl. pl\<lparr>roomId := room_id r, inRoom := True\<rparr>) r)
                          \<lparr>players := players r @ [player]\<rparr>"
  have t2: "turn r2 = Some t"
    using assms(1) by (simp add: r2_def upd_player_def)
  have "addPlayer r player = Inr (r2\<lparr>outbox := outbox r2 @ state_msgs r2 t\<rparr>)"
    using broadcastState_Some [OF t2]
    by (simp add: addPlayer_def r2_def Let_def upd_player_def)
  moreover have "players r2 = players r @ [player]" "inRoom (heap r2 player)"
    "roomId (heap r2 player) = room_id r" "outbox r2 = outbox r"
    by (simp_all add: r2_def upd_player_def)
  ultimately show "\<exists>r'. addPlayer r player = Inr r'
            \<and> players r' = players r @ [player]
            \<and> inRoom (heap r' player)
            \<and> roomId (heap r' player) = room_id r
            \<and> outbox r' = outbox r @ state_msgs r' t"
    by simp
next
  show "join_room s player' code name = Inr s"
    using assms(2,3) by (auto simp: join_room_def Let_def)
qed

theorem addPlayer_enforces_nothing_witness:
  "turn full_table = Some 0
   \<and> rooms gateway ''ROOM001'' = Some (World.more full_table)
   \<and> length (players full_table) = 4 \<and> started full_table
   \<and> (\<exists>r'. addPlayer full_table 4 = Inr r' \<and> players r' = [0, 1, 2, 3, 4]
            \<and> inRoom (heap r' 4) \<and> roomId (heap r' 4) = ''ROOM001'')
   \<and> join_room gateway 4 ''ROOM001'' ''dave'' = Inr gateway"
proof -
  have t: "turn full_table = Some 0" and p: "players full_table = [0, 1, 2, 3]"
    and st: "started full_table" and rid: "room_id full_table = ''ROOM001''"
    by (simp_all add: full_table_def table_def)
  have reg: "rooms gateway ''ROOM001'' = Some (World.more full_table)"
    by (simp add: gateway_def)
  have ext: "World.extend (world gateway) (World.more full_table) = full_table"
    by (simp add: gateway_def full_table_round_trip)
  have full: "length (players (World.extend (world gateway) (World.more full_table))) = 4
         \<or> started (World.extend (world gateway) (World.more full_table))"
    by (simp add: ext st)
  from addPlayer_enforces_nothing [OF t reg full, of 4 4 "''dave''"] t p st rid reg
  show ?thesis by auto
qed

section \<open>Seating order\<close>

text \<open>
  Claim C7: for every room whose turn player is seated (at index \<open>i\<close>), and for either
  value of \<^verbatim>\<open>directionReversed\<close>, \<^verbatim>\<open>getNextPlayer()\<close> with offset 0 returns the player
  exactly one seat on, the index going up when the direction is not reversed and down
  when it is, wrapping modulo the seat count; and the one-seat advance
  \<^verbatim>\<open>this.turn = this.getNextPlayer()\<close> composed with itself \<^verbatim>\<open>players.length\<close> times gives
  back the room with the original turn player.

  The seated players have pairwise distinct ids, as in every room the gateway builds: it
  seats a player only if the player is in no room yet (\<^verbatim>\<open>if (player.inRoom) return\<close>), and
  being seated sets \<^verbatim>\<open>inRoom\<close>.
\<close>

theorem getNextPlayer_one_seat_round_trip:
  assumes "distinct (map (\<lambda>p. player_id (heap r p)) (players r))"
    and "i < length (players r)"
    and "turn r = Some (players r ! i)"
  shows "getNextPlayer r 0
           = Inr (Some (players r ! ((if directionReversed r then i + (length (players r) - 1) else i + 1)
                                      mod length (players r))))
         \<and> (advance_turn ^^ length (players r)) r = r"
proof
  show "getNextPlayer r 0
           = Inr (Some (players r ! ((if directionReversed r then i + (length (players r) - 1) else i + 1)
                                      mod length (players r))))"
    by (rule getNextPlayer_seat [OF assms])
  show "(advance_turn ^^ length (players r)) r = r"
    using assms(2,3) by (simp add: advance_turn_iter [OF assms])
qed

text \<open>Alice, bob and carol at the table, alice to move.\<close>

theorem getNextPlayer_one_seat_round_trip_witness:
  "distinct (map (\<lambda>p. player_id (heap (table [] 0 [0, 1, 2]) p)) (players (table [] 0 [0, 1, 2])))
   \<and> turn (table [] 0 [0, 1, 2]) = Some (players (table [] 0 [0, 1, 2]) ! 0)
   \<and> getNextPlayer (table [] 0 [0, 1, 2]) 0 = Inr (Some 1)
   \<and> (advance_turn ^^ 3) (table [] 0 [0, 1, 2]) = table [] 0 [0, 1, 2]"
proof -
  have d: "distinct (map (\<lambda>p. player_id (heap (table [] 0 [0, 1, 2]) p)) (players (table [] 0 [0, 1, 2])))"
    by (simp add: table_seats)
  have i: "0 < length (players (table [] 0 [0, 1, 2]))"
    by (simp add: table_seats)
  have t: "turn (table [] 0 [0, 1, 2]) = Some (players (table [] 0 [0, 1, 2]) ! 0)"
    by (simp add: table_seats)
  have l: "length (players (table [] 0 [0, 1, 2])) = 3" and p0: "players (table [] 0 [0, 1, 2]) ! 0 = 0"
    and k: "players (table [] 0 [0, 1, 2]) ! ((0 + 1) mod 3) = 1"
    and nr: "\<not> directionReversed (table [] 0 [0, 1, 2])"
    by (simp_all add: table_seats)
  from getNextPlayer_one_seat_round_trip [OF d i t]
  have "getNextPlayer (table [] 0 [0, 1, 2]) 0 = Inr (Some 1)
        \<and> (advance_turn ^^ 3) (table [] 0 [0, 1, 2]) = table [] 0 [0, 1, 2]"
    by (simp only: l nr if_False k)
  with d t show ?thesis by blast
qed

section \<open>What a viewer is shown\<close>

text \<open>
  Claim C9: the state computed for a viewer exposes each opponent (right, top, left) only
  as username, hand count, id, bot flag, uno-call status and skip flag (the record
  \<open>Opponent\<close>), never the opponent's cards; consequently two rooms that differ only in
  which cards another player holds, the count being the same, give the viewer the same
  state.
\<close>

theorem view_hides_opponent_hands:
  assumes "q \<noteq> viewer" and "length hand = length (cards (heap r q))"
  shows "view (upd_player q (\<lambda>pl. pl\<lparr>cards := hand\<rparr>) r) viewer = view r viewer"
proof -
  have "turn (upd_player q (\<lambda>pl. pl\<lparr>cards := hand\<rparr>) r) = turn r"
    and "player_id (heap (upd_player q (\<lambda>pl. pl\<lparr>cards := hand\<rparr>) r) t) = player_id (heap r t)" for t
    by (simp_all add: upd_player_def)
  then show ?thesis
    by (simp add: view_def state_for_hidden_hand [OF assms])
qed

text \<open>Bob's blue 3 is swapped for a green 9; alice's view stays the same.\<close>

theorem view_hides_opponent_hands_witness:
  "(1::ref) \<noteq> 0
   \<and> length [new_Card 8 9 Green None_type] = length (cards (heap (table [new_Card 5 3 Blue None_type] 0 [0, 1]) 1))
   \<and> view (upd_player 1 (\<lambda>pl. pl\<lparr>cards := [new_Card 8 9 Green None_type]\<rparr>)
            (table [new_Card 5 3 Blue None_type] 0 [0, 1])) 0
       = view (table [new_Card 5 3 Blue None_type] 0 [0, 1]) 0
   \<and> view (table [new_Card 5 3 Blue None_type] 0 [0, 1]) 0 \<noteq> None"
proof -
  have ne: "(1::ref) \<noteq> 0" by simp
  have len: "length [new_Card 8 9 Green None_type]
               = length (cards (heap (table [new_Card 5 3 Blue None_type] 0 [0, 1]) 1))"
    by (simp add: table_def bob_def new_Player_def)
  have "view (table [new_Card 5 3 Blue None_type] 0 [0, 1]) 0 \<noteq> None"
    by (simp add: view_def table_seats)
  with view_hides_opponent_hands [OF ne len] ne len show ?thesis
    by blast
qed

section \<open>No card is lost\<close>

text \<open>
  Claim C8, as amended: the multiset of cards held by a started room (deck, pile and the
  players' hands, a card being identified by id, number and type) is preserved by
  \<^verbatim>\<open>giveCard\<close>, its lazy refill included: \<^verbatim>\<open>refillDeckFromPile\<close> moves every pile card
  except the top card into the deck, leaving the pile with only the former top card,
  strips the assigned colour from every Wildcard and Plus4 in the deck, and neither loses
  nor duplicates a card. The top card of the pile is never dealt, so a draw comes up
  empty only if the deck and the pile without its top card together hold fewer cards than
  requested: \<^verbatim>\<open>giveCard\<close> returns a card when they hold one and no card (\<^verbatim>\<open>undefined\<close>) when
  they hold none, and a forced draw of \<open>k\<close> cards to a player who is not already drawing
  delivers \<open>k\<close> cards whenever they hold at least \<open>k\<close>.

  The room has a turn player \<open>t\<close> and a non-empty pile, as every started room has, and
  \<open>p\<close> is one of its players. That \<^verbatim>\<open>giveCard\<close> returns with no card and an empty deck is
  shown for a receiver other than the turn player, for whom the method ends with the
  push; for the turn player it goes on to \<^verbatim>\<open>findPlayableCards\<close> of the missing \<^verbatim>\<open>Player.ts\<close>.
\<close>

theorem refill_and_deal_keep_every_card:
  assumes t: "turn r = Some t" and ne: "pile r \<noteq> []" and seated: "p \<in> set (players r)"
  shows "pile (refillDeckFromPile r) = [last (pile r)]
    \<and> mset (map card_ident (deck (refillDeckFromPile r))) = mset (map card_ident (deck r @ butlast (pile r)))
    \<and> (\<forall>c \<in> set (deck (refillDeckFromPile r)). ctype c = Wildcard \<or> ctype c = Plus4 \<longrightarrow> color c = None_color)
    \<and> (\<forall>given r'. giveCard r p = Inr (given, r') \<longrightarrow>
          mset (map card_ident (all_cards r')) = mset (map card_ident (all_cards r))
          \<and> (given = None \<longleftrightarrow> dealable r = 0))
    \<and> (0 < dealable r \<longrightarrow>
          (\<exists>c r'. giveCard r p = Inr (Some c, r')
             \<and> mset (map card_ident (all_cards r')) = mset (map card_ident (all_cards r))
             \<and> length (cards (heap r' p)) = Suc (length (cards (heap r p)))))
    \<and> (dealable r = 0 \<and> player_id (heap r t) \<noteq> player_id (heap r p) \<longrightarrow>
          (\<exists>r'. giveCard r p = Inr (None, r') \<and> deck r' = [] \<and> pile r' = pile r))
    \<and> (\<not> isRoomEmpty r \<and> \<not> drawing (heap r p) \<and> 0 \<le> k \<and> nat k \<le> dealable r \<longrightarrow>
          (\<exists>r'. drawCards botPlay r p k = Inr r'
             \<and> mset (map card_ident (all_cards r')) = mset (map card_ident (all_cards r))
             \<and> length (cards (heap r' p)) = length (cards (heap r p)) + nat k))"
proof -
  obtain topc below where pr: "pile r = below @ [topc]"
    using ne by (metis rev_exhaust)
  have c1: "pile (refillDeckFromPile r) = [last (pile r)]"
    by (simp add: refill_facts(1) pr)
  have c2: "mset (map card_ident (deck (refillDeckFromPile r))) = mset (map card_ident (deck r @ butlast (pile r)))"
    using refill_facts(2) [of r] by (simp add: butlast_conv_take)
  have c3: "\<forall>c \<in> set (deck (refillDeckFromPile r)). ctype c = Wildcard \<or> ctype c = Plus4 \<longrightarrow> color c = None_color"
    by (rule refill_facts(4))
  have c5: "\<exists>c r'. giveCard r p = Inr (Some c, r')
             \<and> mset (map card_ident (all_cards r')) = mset (map card_ident (all_cards r))
             \<and> length (cards (heap r' p)) = Suc (length (cards (heap r p)))"
    if "0 < dealable r"
  proof -
    from dealt_giveCard [OF t ne that, of p] obtain c r' where
      g: "giveCard r p = Inr (Some c, r')" and d: "dealt r p 1 r'"
      by blast
    from dealt_all_cards [OF d seated] dealt_frame(18) [OF d] g
    show ?thesis by simp
  qed
  have c4: "mset (map card_ident (all_cards r')) = mset (map card_ident (all_cards r))
          \<and> (given = None \<longleftrightarrow> dealable r = 0)"
    if g: "giveCard r p = Inr (given, r')" for given r'
  proof (cases "dealable r = 0")
    case True
    from giveCard_none_moves [OF t ne True g] have "given = None" and d: "dealt r p 0 r'"
      by simp_all
    with dealt_all_cards [OF d seated] True show ?thesis by simp
  next
    case False
    then have "0 < dealable r" by simp
    from c5 [OF this] g False show ?thesis by auto
  qed
  have c6: "\<exists>r'. drawCards botPlay r p k = Inr r'
             \<and> mset (map card_ident (all_cards r')) = mset (map card_ident (all_cards r))
             \<and> length (cards (heap r' p)) = length (cards (heap r p)) + nat k"
    if a: "\<not> isRoomEmpty r \<and> \<not> drawing (heap r p) \<and> 0 \<le> k \<and> nat k \<le> dealable r"
  proof -
    from a have "\<not> isRoomEmpty r" "\<not> drawing (heap r p)" "0 \<le> k" "nat k \<le> dealable r"
      by simp_all
    from drawCards_forced [OF t ne this(1,3,4,2), of botPlay] obtain r' where
      g: "drawCards botPlay r p k = Inr r'" and d: "dealt r p (nat k) r'"
      by blast
    from dealt_all_cards [OF d seated] dealt_frame(18) [OF d] g
    show ?thesis by simp
  qed
  have c7: "\<exists>r'. giveCard r p = Inr (None, r') \<and> deck r' = [] \<and> pile r' = pile r"
    if "dealable r = 0 \<and> player_id (heap r t) \<noteq> player_id (heap r p)"
    using that giveCard_nothing [OF t, of p] by simp
  from c1 c2 c3 c4 c5 c7 c6 show ?thesis
    by (intro conjI allI impI) blast+
qed

text \<open>Bob is given one card, and draws four, from a deck of four; from the table with
  the deck used up he is given none, and no card moves.\<close>

theorem refill_and_deal_keep_every_card_witness:
  "turn (table [] 0 [0, 1]) = Some 0 \<and> pile (table [] 0 [0, 1]) \<noteq> []
   \<and> 1 \<in> set (players (table [] 0 [0, 1]))
   \<and> 0 < dealable (table [] 0 [0, 1])
   \<and> (\<exists>c r'. giveCard (table [] 0 [0, 1]) 1 = Inr (Some c, r')
          \<and> mset (map card_ident (all_cards r')) = mset (map card_ident (all_cards (table [] 0 [0, 1])))
          \<and> length (cards (heap r' 1)) = 1)
   \<and> (\<exists>r'. drawCards idle_bot (table [] 0 [0, 1]) 1 4 = Inr r'
          \<and> mset (map card_ident (all_cards r')) = mset (map card_ident (all_cards (table [] 0 [0, 1])))
          \<and> length (cards (heap r' 1)) = 4)
   \<and> turn bare_table = Some 0 \<and> pile bare_table \<noteq> [] \<and> 1 \<in> set (players bare_table)
   \<and> dealable bare_table = 0
   \<and> (\<exists>r'. giveCard bare_table 1 = Inr (None, r')
          \<and> mset (map card_ident (all_cards r')) = mset (map card_ident (all_cards bare_table)))"
proof -
  have t: "turn (table [] 0 [0, 1]) = Some 0" and ne: "pile (table [] 0 [0, 1]) \<noteq> []"
    and seated: "1 \<in> set (players (table [] 0 [0, 1]))"
    and avail: "0 < dealable (table [] 0 [0, 1])"
    by (simp_all add: table_seats table_piles)
  have more: "\<not> isRoomEmpty (table [] 0 [0, 1]) \<and> \<not> drawing (heap (table [] 0 [0, 1]) 1)
              \<and> (0::int) \<le> 4 \<and> nat 4 \<le> dealable (table [] 0 [0, 1])"
    by (simp add: table_piles table_bob)
  from refill_and_deal_keep_every_card [OF t ne seated, of 4 idle_bot] avail more
  have full: "(\<exists>c r'. giveCard (table [] 0 [0, 1]) 1 = Inr (Some c, r')
          \<and> mset (map card_ident (all_cards r')) = mset (map card_ident (all_cards (table [] 0 [0, 1])))
          \<and> length (cards (heap r' 1)) = Suc (length (cards (heap (table [] 0 [0, 1]) 1))))
   \<and> (\<exists>r'. drawCards idle_bot (table [] 0 [0, 1]) 1 4 = Inr r'
          \<and> mset (map card_ident (all_cards r')) = mset (map card_ident (all_cards (table [] 0 [0, 1])))
          \<and> length (cards (heap r' 1)) = length (cards (heap (table [] 0 [0, 1]) 1)) + nat 4)"
    by blast
  have seated': "1 \<in> set (players bare_table)"
    by (simp add: bare_table_facts)
  have other: "player_id (heap bare_table 0) \<noteq> player_id (heap bare_table 1)"
    by (simp add: bare_table_def table_seats)
  from refill_and_deal_keep_every_card [OF bare_table_facts(1,2) seated', of 0 idle_bot]
    bare_table_facts(4) other
  have bare: "\<exists>r'. giveCard bare_table 1 = Inr (None, r')
          \<and> mset (map card_ident (all_cards r')) = mset (map card_ident (all_cards bare_table))"
    by blast
  from full bare show ?thesis
    using t ne seated avail seated' bare_table_facts(1,2,4) by (simp add: table_bob)
qed

text \<open>
  Claim C8 as stated, that a draw can only fail if deck and pile together hold fewer cards
  than requested, fails: with the deck used up and only the top card on the pile, deck
  and pile together hold one card, and \<^verbatim>\<open>giveCard\<close> has no card for bob: it returns
  \<^verbatim>\<open>undefined\<close>.
\<close>

theorem giveCard_top_card_counterexample:
  "length (deck bare_table) + length (pile bare_table) = 1
   \<and> map_sum id fst (giveCard bare_table 1) = Inr None"
proof -
  have "player_id (heap bare_table 0) \<noteq> player_id (heap bare_table 1)"
    by (simp add: bare_table_def table_seats)
  from giveCard_nothing [OF bare_table_facts(1,4) this]
  show ?thesis by (auto simp: bare_table_facts)
qed

section \<open>The turn pointer\<close>

text \<open>
  Claim C3 says that in every reachable room the turn pointer refers to a player who is
  seated, and that removing the current-turn player, with or without bot replacement,
  preserves this. The code does not: \<^verbatim>\<open>removePlayer(player, false)\<close> filters the player
  out of the seating list and leaves \<^verbatim>\<open>turn\<close> as it is, whereas the replacing path
  (\<^verbatim>\<open>addBot\<close>) hands the turn to the bot. With alice, bob and carol seated in a started
  game and bob to move, removing bob without replacement (as kicking him does) leaves
  alice and carol seated and the turn on bob.
\<close>

theorem removePlayer_strands_turn:
  "turn bob_to_move = Some 1 \<and> players bob_to_move = [0, 1, 2]
   \<and> (\<exists>r'. removePlayer idle_bot bob_to_move 1 False = Some (Inr r')
            \<and> players r' = [0, 2] \<and> turn r' = Some 1)"
proof -
  have humans: "1 < length (filter (\<lambda>p. \<not> bot_flag (heap bob_to_move p)
                                \<and> player_id (heap bob_to_move p) \<noteq> player_id (heap bob_to_move 1))
                         (players bob_to_move))"
    by (simp add: bob_to_move_facts)
  have guest: "player_id (heap bob_to_move (host bob_to_move)) \<noteq> player_id (heap bob_to_move 1)"
    by (simp add: bob_to_move_facts)
  from removePlayer_no_replace [OF bob_to_move_facts(1) humans guest, of idle_bot]
  obtain ob where "removePlayer idle_bot bob_to_move 1 False
           = Some (Inr (upd_player 1 (\<lambda>pl. pl\<lparr>roomId := [], inRoom := False, cards := []\<rparr>)
                          (bob_to_move\<lparr>players := filter (\<lambda>p. player_id (heap bob_to_move p)
                                                             \<noteq> player_id (heap bob_to_move 1))
                                               (players bob_to_move),
                             outbox := ob\<rparr>)))"
    by blast
  then show ?thesis
    by (simp add: bob_to_move_facts upd_player_def)
qed

section \<open>Playing a Plus2\<close>

text \<open>
  Claim C5: when the current player plays a Plus2 and the next player (per seating order
  and direction) holds no Plus2, the next player's hand grows by exactly the accumulated
  stack plus 2 cards (exactly 2 when the stack was 0), the turn skips that player (the
  player after them acts next), and the room's stack resets to 0 with every seated
  player's \<^verbatim>\<open>mustStack\<close> cleared.

  The play is an accepted one by the turn player \<open>p\<close>; \<open>q\<close> is the next player, another
  player than \<open>p\<close>, and \<open>s\<close> the player after \<open>q\<close>. The room is a game in progress: it is
  not marked empty, \<open>q\<close> is not in the middle of a draw, the stack is not negative, and
  deck and pile hold the cards to be drawn (the stack plus 2, and 2 more in case \<open>p\<close> is
  penalised for not having called uno). \<open>r'\<close> is the room when \<open>s\<close> has been given the
  turn; if \<open>s\<close> is a bot and nobody has won, the bot's play follows from there.
\<close>

theorem playCard_plus2_unanswered:
  assumes t: "turn r = Some p" and can: "canPlay (heap r p)"
    and c: "at_index (cards (heap r p)) idx = Some c" and ok: "playable c" and plus2: "ctype c = Plus2"
    and nq: "getNextPlayer r 0 = Inr (Some q)" and other: "q \<noteq> p"
    and ns: "getNextPlayer (r\<lparr>turn := Some q\<rparr>) 0 = Inr (Some s)"
    and none: "\<forall>x \<in> set (cards (heap r q)). ctype x \<noteq> Plus2"
    and idle: "\<not> drawing (heap r q)" and open_room: "\<not> isRoomEmpty r"
    and pending: "0 \<le> stack r"
    and enough: "nat (stack r) + 4 \<le> length (deck r) + length (pile r)"
  shows "\<exists>r'. playCard botPlay r p idx
                 = (if winner r' = None \<and> bot_flag (heap r' s) then botPlay s r' else Inr r')
              \<and> length (cards (heap r' q)) = length (cards (heap r q)) + nat (stack r + 2)
              \<and> turn r' = Some s \<and> canPlay (heap r' s) \<and> canDraw (heap r' s)
              \<and> stack r' = 0 \<and> players r' = players r
              \<and> (\<forall>x \<in> set (players r'). \<not> mustStack (heap r' x))
              \<and> bot_flag (heap r' s) = bot_flag (heap r s)"
proof -
  define r3 where "r3 = card_laid r p idx c"
  note f3 = card_laid_frame [where r = r and p = p and idx = idx and c = c, folded r3_def]
  have nq3: "getNextPlayer r3 0 = Inr (Some q)"
    using nq getNextPlayer_cong [of r3 r 0] by (simp add: f3)
  have seated: "q \<in> set (players r)" by (rule getNextPlayer_seated [OF nq])
  define r4 where "r4 = clearStack r3"
  have r4: "r4 = r3\<lparr>heap := (\<lambda>x. if x \<in> set (players r3) then (heap r3 x)\<lparr>mustStack := False\<rparr>
                                   else heap r3 x),
                     stack := 0\<rparr>"
    unfolding r4_def by (rule clearStack_eq)
  have "findIndex (\<lambda>x. ctype x = Plus2) (cards (heap r3 q)) = - 1"
    using none other by (simp add: findIndex_none f3)
  then have sw: "playCard_switch r3 c (Some q) = Inr (stack r + 2, r4)"
    by (simp add: playCard_switch_def plus2 r4_def f3)
  have f4: "turn r4 = Some p" "pile r4 \<noteq> []" "\<not> isRoomEmpty r4" "players r4 = players r"
    "directionReversed r4 = directionReversed r" "stack r4 = 0"
    "dealable r4 = length (deck r) + length (pile r)"
    using t open_room f3(12) by (simp_all add: r4 f3 dealable_def)
  have h4: "player_id (heap r4 x) = player_id (heap r x)" "drawing (heap r4 x) = drawing (heap r x)"
    "x \<in> set (players r) \<Longrightarrow> \<not> mustStack (heap r4 x)" for x
    by (simp_all add: r4 f3)
  have "length (cards (heap r4 q)) = length (cards (heap r q))" "bot_flag (heap r4 s) = bot_flag (heap r3 s)"
    using other by (simp_all add: r4 f3)
  note q4 = this
  from enough f4(7) have "2 \<le> dealable r4" by simp
  from uno_penalty [OF f4(1,2,3) this, of p botPlay] obtain n r5 where
    pen: "(if length (cards (heap r4 p)) = 1 \<and> \<not> hasCalledUno (heap r4 p)
           then drawCards botPlay r4 p 2 else Inr r4) = Inr r5"
    and d5: "dealt r4 p n r5" and n: "n \<le> 2"
    by blast
  note f5 = dealt_frame [OF d5]
  define r6 where "r6 = upd_player p (\<lambda>pl. pl\<lparr>hasCalledUno := False\<rparr>) r5"
  have f6: "turn r6 = Some p" "pile r6 \<noteq> []" "\<not> isRoomEmpty r6" "players r6 = players r"
    "stack r6 = 0"
    using f4 by (simp_all add: r6_def upd_player_def f5)
  have h6: "mustStack (heap r6 x) = mustStack (heap r4 x)" "drawing (heap r6 x) = drawing (heap r4 x)"
    "bot_flag (heap r6 x) = bot_flag (heap r4 x)" for x
    by (simp_all add: r6_def upd_player_def f5)
  have q6: "length (cards (heap r6 q)) = length (cards (heap r q))"
    using other q4(1) f5(10) [of q] by (simp add: r6_def upd_player_def)
  have "getNextPlayer r6 0 = getNextPlayer r 0"
    using t by (intro getNextPlayer_cong) (simp_all add: r6_def upd_player_def f5 f4 h4)
  with nq have nq6: "getNextPlayer r6 0 = Inr (Some q)" by simp
  have "getNextPlayer (r6\<lparr>turn := Some q\<rparr>) 0 = getNextPlayer (r\<lparr>turn := Some q\<rparr>) 0"
    by (intro getNextPlayer_cong) (simp_all add: r6_def upd_player_def f5 f4 h4)
  with ns have ns6: "getNextPlayer (r6\<lparr>turn := Some q\<rparr>) 0 = Inr (Some s)" by simp
  have pos: "0 < stack r + 2" using pending by simp
  have "dealable r6 = dealable r5" by (simp add: r6_def upd_player_def dealable_def)
  with f5(19) f4(7) n enough pending have enough6: "nat (stack r + 2) \<le> dealable r6"
    by linarith
  have idle6: "\<not> drawing (heap r6 q)" using idle by (simp add: h6 h4)
  from nextTurn_skip_draw [OF f6(1) nq6 ns6 f6(2,3) pos enough6 idle6, of botPlay]
  obtain r' where
    res: "nextTurn botPlay r6 True (stack r + 2)
            = (if winner r' = None \<and> bot_flag (heap r' s) then botPlay s r' else Inr r')"
    and a: "turn r' = Some s" "stack r' = stack r6" "players r' = players r6"
      "canPlay (heap r' s)" "canDraw (heap r' s)"
      "\<forall>x. mustStack (heap r' x) = mustStack (heap r6 x)"
      "\<forall>x. bot_flag (heap r' x) = bot_flag (heap r6 x)"
      "length (cards (heap r' q)) = length (cards (heap r6 q)) + nat (stack r + 2)"
    by blast
  have cleared: "\<not> mustStack (heap r6 q)"
    using seated by (simp add: h6 h4)
  have "playCard botPlay r p idx = nextTurn botPlay r6 True (stack r + 2)"
    unfolding playCard_accepted [OF t can c ok] r3_def [symmetric]
    by (simp only: nq3 sw pen sum.case prod.case option.case Let_def r6_def [symmetric]
          plus2 cleared simp_thms if_True)
  with res have 1: "playCard botPlay r p idx
                 = (if winner r' = None \<and> bot_flag (heap r' s) then botPlay s r' else Inr r')"
    by simp
  have 2: "\<forall>x \<in> set (players r'). \<not> mustStack (heap r' x)"
    using a(3,6) by (simp add: f6 h6 h4)
  have 3: "bot_flag (heap r' s) = bot_flag (heap r s)"
  proof -
    have "bot_flag (heap r3 s) = bot_flag (heap r s)"
      by (simp add: r3_def card_laid_def upd_player_def)
    with a(7) q4(2) show ?thesis by (simp add: h6)
  qed
  have 4: "length (cards (heap r' q)) = length (cards (heap r q)) + nat (stack r + 2)"
    using a(8) q6 by simp
  have 5: "stack r' = 0" using a(2) f6(5) by simp
  have 6: "players r' = players r" using a(3) f6(4) by simp
  from 1 2 3 4 5 6 a(1,4,5) show ?thesis by blast
qed

text \<open>Alice plays her red Plus2 on bob, who holds a single blue 3: bob ends with three
  cards and alice is to move again.\<close>

theorem playCard_plus2_unanswered_witness:
  "turn plain_table = Some 0 \<and> canPlay (heap plain_table 0)
   \<and> getNextPlayer plain_table 0 = Inr (Some 1)
   \<and> getNextPlayer (plain_table\<lparr>turn := Some 1\<rparr>) 0 = Inr (Some 0)
   \<and> cards (heap plain_table 1) = [new_Card 5 3 Blue None_type]
   \<and> stack plain_table = 0
   \<and> (\<exists>r'. playCard idle_bot plain_table 0 0 = Inr r'
          \<and> length (cards (heap r' 1)) = 3 \<and> turn r' = Some 0 \<and> stack r' = 0
          \<and> \<not> mustStack (heap r' 0) \<and> \<not> mustStack (heap r' 1))"
proof -
  have h1: "turn plain_table = Some 0"
    unfolding plain_table_def by (rule table_seats(2))
  have h2: "canPlay (heap plain_table 0)"
    unfolding plain_table_def by (rule table_alice(1))
  have h3: "at_index (cards (heap plain_table 0)) 0 = Some ((new_Card 1 0 Red Plus2)\<lparr>playable := True\<rparr>)"
    unfolding plain_table_def by (rule table_alice(3))
  note h4 = table_alice(4) and h5 = table_alice(5)
  have h6: "getNextPlayer plain_table 0 = Inr (Some 1)"
    unfolding plain_table_def by (rule table_for_two(1))
  have h7: "(1::ref) \<noteq> 0" by simp
  have h8: "getNextPlayer (plain_table\<lparr>turn := Some 1\<rparr>) 0 = Inr (Some 0)"
    unfolding plain_table_def by (rule table_for_two(2))
  have hand: "cards (heap plain_table 1) = [new_Card 5 3 Blue None_type]"
    unfolding plain_table_def by (simp add: table_bob)
  have h9: "\<forall>x \<in> set (cards (heap plain_table 1)). ctype x \<noteq> Plus2"
    unfolding hand by (simp add: new_Card_def)
  have h10: "\<not> drawing (heap plain_table 1)" and h11: "\<not> isRoomEmpty plain_table"
    and h12: "0 \<le> stack plain_table"
    and h13: "nat (stack plain_table) + 4 \<le> length (deck plain_table) + length (pile plain_table)"
    unfolding plain_table_def by (simp_all add: table_bob table_piles)
  have more: "stack plain_table = 0" "\<not> bot_flag (heap plain_table 0)"
    unfolding plain_table_def by (simp_all add: table_piles table_alice)
  have seats: "getNextPlayer plain_table 0 = Inr (Some 1) \<Longrightarrow> 1 \<in> set (players plain_table)"
    by (rule getNextPlayer_seated)
  have in0: "0 \<in> set (players plain_table)" and in1: "1 \<in> set (players plain_table)"
    unfolding plain_table_def by (simp_all add: table_seats)
  from playCard_plus2_unanswered [OF h1 h2 h3 h4 h5 h6 h7 h8 h9 h10 h11 h12 h13, of idle_bot]
  obtain r' where
    res: "playCard idle_bot plain_table 0 0
       = (if winner r' = None \<and> bot_flag (heap r' 0) then idle_bot 0 r' else Inr r')"
    and len: "length (cards (heap r' 1)) = length (cards (heap plain_table 1)) + nat (stack plain_table + 2)"
    and a: "turn r' = Some 0" "stack r' = 0"
    and clear: "\<forall>x \<in> set (players r'). \<not> mustStack (heap r' x)"
    and pl: "players r' = players plain_table"
    by blast
  have 1: "playCard idle_bot plain_table 0 0 = Inr r'"
    unfolding res by (simp add: idle_bot_def)
  have 2: "length (cards (heap r' 1)) = 3"
    unfolding len hand more(1) by simp
  have 3: "\<not> mustStack (heap r' 0)" "\<not> mustStack (heap r' 1)"
    using clear in0 in1 unfolding pl by blast+
  from 1 2 3 a have "\<exists>r'. playCard idle_bot plain_table 0 0 = Inr r'
          \<and> length (cards (heap r' 1)) = 3 \<and> turn r' = Some 0 \<and> stack r' = 0
          \<and> \<not> mustStack (heap r' 0) \<and> \<not> mustStack (heap r' 1)"
    by blast
  with h1 h2 h6 h8 hand more(1) show ?thesis by blast
qed

text \<open>
  Claim C4, as amended: starting from a room with no pending stack (\<open>stack = 0\<close>), when
  the current player plays a Plus2 and the next player (per seating order and direction),
  another player, holds at least one Plus2, no draw is delivered to the next player (the
  hand keeps its cards), the room's stack becomes 2, the penalty of the card just played,
  the next player's \<^verbatim>\<open>mustStack\<close> becomes true, and the turn passes to the next player.
  The stack reaches 4 only when the next player answers with a Plus2.

  The play is an accepted one by the turn player \<open>p\<close>, in a room that is not marked empty
  and holds two cards in deck and pile in case \<open>p\<close> is penalised for not having called
  uno. \<open>r'\<close> is the room when the next player \<open>q\<close> has been given the turn; if \<open>q\<close> is a
  bot and nobody has won, the bot's play follows from there.
\<close>

theorem playCard_plus2_defers_the_draw:
  assumes "turn r = Some p" and "canPlay (heap r p)"
    and "at_index (cards (heap r p)) idx = Some c" and "playable c" and "ctype c = Plus2"
    and "getNextPlayer r 0 = Inr (Some q)" and "q \<noteq> p"
    and "\<exists>x \<in> set (cards (heap r q)). ctype x = Plus2"
    and "\<not> isRoomEmpty r"
    and "2 \<le> length (deck r) + length (pile r)"
    and "stack r = 0"
  shows "\<exists>r'. playCard botPlay r p idx
                 = (if winner r' = None \<and> bot_flag (heap r' q) then botPlay q r' else Inr r')
              \<and> stack r' = 2
              \<and> mustStack (heap r' q)
              \<and> map card_ident (cards (heap r' q)) = map card_ident (cards (heap r q))
              \<and> turn r' = Some q \<and> canPlay (heap r' q)"
proof -
  from playCard_plus2_stacked [OF assms(1-10), of botPlay] obtain r' where
    "playCard botPlay r p idx
       = (if winner r' = None \<and> bot_flag (heap r' q) then botPlay q r' else Inr r')"
    "stack r' = stack r + 2" "mustStack (heap r' q)"
    "map card_ident (cards (heap r' q)) = map card_ident (cards (heap r q))"
    "turn r' = Some q" "canPlay (heap r' q)"
    by blast
  with assms(11) show ?thesis by (intro exI [of _ r']) simp
qed

text \<open>Alice plays her red Plus2 on bob, who holds a blue Plus2.\<close>

theorem playCard_plus2_defers_the_draw_witness:
  "turn stacking_table = Some 0 \<and> canPlay (heap stacking_table 0)
   \<and> getNextPlayer stacking_table 0 = Inr (Some 1)
   \<and> cards (heap stacking_table 1) = [new_Card 5 0 Blue Plus2]
   \<and> stack stacking_table = 0
   \<and> (\<exists>r'. playCard idle_bot stacking_table 0 0
                = (if winner r' = None \<and> bot_flag (heap r' 1) then idle_bot 1 r' else Inr r')
          \<and> stack r' = 2 \<and> mustStack (heap r' 1) \<and> turn r' = Some 1)"
proof -
  have h1: "turn stacking_table = Some 0"
    unfolding stacking_table_def by (rule table_seats(2))
  have h2: "canPlay (heap stacking_table 0)"
    unfolding stacking_table_def by (rule table_alice(1))
  have h3: "at_index (cards (heap stacking_table 0)) 0 = Some ((new_Card 1 0 Red Plus2)\<lparr>playable := True\<rparr>)"
    unfolding stacking_table_def by (rule table_alice(3))
  note h4 = table_alice(4) and h5 = table_alice(5)
  have h6: "getNextPlayer stacking_table 0 = Inr (Some 1)"
    unfolding stacking_table_def by (rule table_for_two(1))
  have h7: "(1::ref) \<noteq> 0" by simp
  have hand: "cards (heap stacking_table 1) = [new_Card 5 0 Blue Plus2]"
    unfolding stacking_table_def by (simp add: table_bob)
  have h8: "\<exists>x \<in> set (cards (heap stacking_table 1)). ctype x = Plus2"
    unfolding hand by (simp add: new_Card_def)
  have h9: "\<not> isRoomEmpty stacking_table"
    and h10: "2 \<le> length (deck stacking_table) + length (pile stacking_table)"
    and h11: "stack stacking_table = 0"
    unfolding stacking_table_def by (simp_all add: table_piles)
  from playCard_plus2_defers_the_draw [OF h1 h2 h3 h4 h5 h6 h7 h8 h9 h10 h11, of idle_bot]
  have "\<exists>r'. playCard idle_bot stacking_table 0 0
                = (if winner r' = None \<and> bot_flag (heap r' 1) then idle_bot 1 r' else Inr r')
          \<and> stack r' = 2 \<and> mustStack (heap r' 1) \<and> turn r' = Some 1"
    by blast
  with h1 h2 h6 hand h11 show ?thesis by blast
qed

text \<open>
  Claim C4 as stated, that the stack becomes 4, fails: alice plays her red Plus2 with no
  stack pending, bob holds a blue Plus2, and the stack after the play is 2.
\<close>

theorem playCard_plus2_stack_counterexample:
  "stack stacking_table = 0 \<and> turn stacking_table = Some 0
   \<and> getNextPlayer stacking_table 0 = Inr (Some 1)
   \<and> cards (heap stacking_table 1) = [new_Card 5 0 Blue Plus2]
   \<and> map_sum id stack (playCard idle_bot stacking_table 0 0) = Inr 2"
proof -
  have "stack stacking_table = 0" "turn stacking_table = Some 0"
    unfolding stacking_table_def by (simp_all add: table_piles table_seats)
  moreover have "getNextPlayer stacking_table 0 = Inr (Some 1)"
    unfolding stacking_table_def by (rule table_for_two(1))
  moreover have "cards (heap stacking_table 1) = [new_Card 5 0 Blue Plus2]"
    unfolding stacking_table_def by (simp add: table_bob)
  moreover from stacking_table_play
  have "map_sum id stack (playCard idle_bot stacking_table 0 0) = Inr 2"
    by auto
  ultimately show ?thesis by blast
qed


end
